theory Spec2Isabelle
  imports
    Main
    "HOL-Library.Char_ord"
    "HOL-Library.List_Lexorder"
    "HOL-Library.Product_Lexorder"
    "HOL-Library.Sublist"
begin

section \<open>Python strings\<close>

text \<open>
  Strings are lists of characters. The whitespace removed by \<^verbatim>\<open>str.strip()\<close> is the ASCII
  whitespace of Python (tab, line feed, vertical tab, form feed, carriage return, the four
  separators 0x1C-0x1F and the space); whitespace outside ASCII is not modelled.
\<close>

definition is_space :: "char \<Rightarrow> bool" where
  "is_space c = (c \<in> set [CHR 0x09, CHR 0x0A, CHR 0x0B, CHR 0x0C, CHR 0x0D,
                            CHR 0x1C, CHR 0x1D, CHR 0x1E, CHR 0x1F, CHR 0x20])"

definition str_strip :: "string \<Rightarrow> string" where
  "str_strip s = rev (dropWhile is_space (rev (dropWhile is_space s)))"

text \<open>A string that \<^verbatim>\<open>strip()\<close> leaves as it is, and that is not empty.\<close>

definition stripped :: "string \<Rightarrow> bool" where
  "stripped s = (s \<noteq> [] \<and> \<not> is_space (hd s) \<and> \<not> is_space (last s))"

text \<open>
  \<^verbatim>\<open>s.split(sep)\<close>: cut at the non-overlapping occurrences of \<open>sep\<close>, found from the left;
  empty pieces are kept. Python raises on an empty separator; the code never passes one, and
  the model then returns the string whole.
\<close>

function str_split :: "string \<Rightarrow> string \<Rightarrow> string list" where
  "str_split sep [] = [[]]"
| "str_split sep (c # cs) =
     (if sep \<noteq> [] \<and> prefix sep (c # cs)
      then [] # str_split sep (drop (length sep) (c # cs))
      else (case str_split sep cs of [] \<Rightarrow> [[c]] | p # ps \<Rightarrow> (c # p) # ps))"
  by pat_completeness auto
termination
  by (relation "measure (\<lambda>(sep, s). length s)") auto

fun str_join :: "string \<Rightarrow> string list \<Rightarrow> string" where
  "str_join sep [] = []"
| "str_join sep [x] = x"
| "str_join sep (x # y # ys) = x @ sep @ str_join sep (y # ys)"

text \<open>\<^verbatim>\<open>pat in s\<close> on strings: \<open>pat\<close> occurs in \<open>s\<close> as a contiguous piece.\<close>

fun str_contains :: "string \<Rightarrow> string \<Rightarrow> bool" where
  "str_contains pat [] = (pat = [])"
| "str_contains pat (c # cs) = (prefix pat (c # cs) \<or> str_contains pat cs)"

definition lower_char :: "char \<Rightarrow> char" where
  "lower_char c = (if CHR ''A'' \<le> c \<and> c \<le> CHR ''Z'' then char_of (of_char c + (32 :: nat)) else c)"

definition str_lower :: "string \<Rightarrow> string" where
  "str_lower s = map lower_char s"

text \<open>\<^verbatim>\<open>str(n)\<close> for an integer.\<close>

fun str_nat :: "nat \<Rightarrow> string" where
  "str_nat n = (if n < 10 then [char_of (48 + n)] else str_nat (n div 10) @ [char_of (48 + n mod 10)])"

definition str_int :: "int \<Rightarrow> string" where
  "str_int i = (if i < 0 then CHR ''-'' # str_nat (nat (- i)) else str_nat (nat i))"

text \<open>
  \<^verbatim>\<open>list(dict.fromkeys(xs))\<close>: the keys are inserted one by one, a key that is already there keeps
  its place, and the dictionary lists them in insertion order.
\<close>

fun fromkeys_into :: "'a list \<Rightarrow> 'a list \<Rightarrow> 'a list" where
  "fromkeys_into seen [] = seen"
| "fromkeys_into seen (x # xs) = fromkeys_into (if x \<in> set seen then seen else seen @ [x]) xs"

definition dict_fromkeys :: "'a list \<Rightarrow> 'a list" where
  "dict_fromkeys xs = fromkeys_into [] xs"

section \<open>The value splitter\<close>

text \<open>
  One round of the separator loop of \<^verbatim>\<open>_process_multiple_values\<close> and of
  \<^verbatim>\<open>get_multiple_emails\<close>:
  \<^verbatim>\<open>new_values.extend([v.strip() for v in val.split(sep) if v.strip()])\<close> for every \<open>val\<close>.
\<close>

definition split_pass :: "string \<Rightarrow> string list \<Rightarrow> string list" where
  "split_pass sep vals =
     concat (map (\<lambda>val. map str_strip (filter (\<lambda>v. str_strip v \<noteq> []) (str_split sep val))) vals)"

definition split_cascade :: "string list \<Rightarrow> string \<Rightarrow> string list" where
  "split_cascade separators cell_value =
     foldl (\<lambda>processed_values sep. split_pass sep processed_values) [cell_value] separators"

text \<open>The separator lists, in the order of the source: the normaliser starts with the
  semicolon, the e-mail and product extraction with the comma.\<close>

definition value_separators :: "string list" where
  "value_separators = ['';'', '','', ''|'', [CHR 0x0A], [CHR 0x0D, CHR 0x0A]]"

definition email_separators :: "string list" where
  "email_separators = ['','', '';'', ''|'', [CHR 0x0A], [CHR 0x0D, CHR 0x0A]]"

text \<open>\<^verbatim>\<open>unique_values\<close> of \<^verbatim>\<open>_process_multiple_values\<close>, as a function of the cell's string.\<close>

definition unique_values :: "string \<Rightarrow> string list" where
  "unique_values cell_value = dict_fromkeys (split_cascade value_separators cell_value)"

text \<open>The e-mail check: \<^verbatim>\<open>'@' in email and '.' in email.split('@')[-1]\<close>.\<close>

definition valid_email :: "string \<Rightarrow> bool" where
  "valid_email email =
     (CHR ''@'' \<in> set email \<and> CHR ''.'' \<in> set (last (str_split ''@'' email)))"

text \<open>The tail of \<^verbatim>\<open>get_multiple_emails\<close>, from the separator loop on.\<close>

definition extract_emails :: "string \<Rightarrow> string list" where
  "extract_emails email_value =
     dict_fromkeys (filter valid_email (split_cascade email_separators email_value))"

section \<open>Cells, rows and frames\<close>

text \<open>
  A cell of a DataFrame: Python's \<^verbatim>\<open>None\<close>, the float \<^verbatim>\<open>nan\<close>, a string, a boolean, an
  integer, or a \<^verbatim>\<open>pd.Timestamp\<close>. A timestamp is the number of seconds since the epoch in
  naive local time (pandas counts nanoseconds; only the division into days of 86400 seconds
  is used). Floats other than \<^verbatim>\<open>nan\<close> are not modelled.
\<close>

datatype cell = NoneV | NaN | Str string | Bool bool | Num int | Stamp int

datatype error = KeyError | TypeError | AttributeError | ValueError | RegexError

text \<open>\<^verbatim>\<open>pd.isna\<close>, \<^verbatim>\<open>notna\<close>, \<^verbatim>\<open>dropna\<close>: both \<^verbatim>\<open>None\<close> and \<^verbatim>\<open>nan\<close> are missing values.\<close>

definition isna :: "cell \<Rightarrow> bool" where
  "isna c = (c = NoneV \<or> c = NaN)"

text \<open>The truth value Python gives a cell in \<^verbatim>\<open>if cell_value\<close> and \<^verbatim>\<open>not email_value\<close>.\<close>

fun truthy :: "cell \<Rightarrow> bool" where
  "truthy NoneV = False"
| "truthy NaN = True"
| "truthy (Str s) = (s \<noteq> [])"
| "truthy (Bool b) = b"
| "truthy (Num n) = (n \<noteq> 0)"
| "truthy (Stamp t) = True"

text \<open>The elementwise \<^verbatim>\<open>== False\<close>: Python's \<^verbatim>\<open>0 == False\<close> holds, a missing value is not equal.\<close>

definition eq_False :: "cell \<Rightarrow> bool" where
  "eq_False c = (c = Bool False \<or> c = Num 0)"

type_synonym row = "string \<rightharpoonup> cell"

text \<open>
  A DataFrame: the column names in order, and the rows in order, each with its index label.
  Series operations of pandas work elementwise along the index; they are modelled row by row.
\<close>

record frame =
  columns :: "string list"
  rows :: "(int \<times> row) list"

definition empty_frame :: frame where
  "empty_frame = \<lparr>columns = [], rows = []\<rparr>"

definition index :: "frame \<Rightarrow> int list" where
  "index df = map fst (rows df)"

text \<open>\<^verbatim>\<open>df.empty\<close>: one of the two axes has length 0.\<close>

definition df_empty :: "frame \<Rightarrow> bool" where
  "df_empty df = (columns df = [] \<or> rows df = [])"

definition cell_at :: "row \<Rightarrow> string \<Rightarrow> cell" where
  "cell_at r c = (case r c of Some v \<Rightarrow> v | None \<Rightarrow> NaN)"

text \<open>\<^verbatim>\<open>df[c]\<close> as the list of its values (the caller checks that the column exists).\<close>

definition series :: "frame \<Rightarrow> string \<Rightarrow> cell list" where
  "series df c = map (\<lambda>(i, r). cell_at r c) (rows df)"

text \<open>\<^verbatim>\<open>df[c] = values\<close>: the column is replaced, or appended when it is new.\<close>

definition assign :: "string \<Rightarrow> (row \<Rightarrow> cell) \<Rightarrow> frame \<Rightarrow> frame" where
  "assign c f df =
     \<lparr>columns = (if c \<in> set (columns df) then columns df else columns df @ [c]),
      rows = map (\<lambda>(i, r). (i, r(c \<mapsto> f r))) (rows df)\<rparr>"

definition set_column :: "string \<Rightarrow> cell \<Rightarrow> frame \<Rightarrow> frame" where
  "set_column c v df = assign c (\<lambda>r. v) df"

text \<open>\<^verbatim>\<open>df[mask]\<close> with a boolean mask: the rows where the mask holds, in their order.\<close>

definition select :: "(row \<Rightarrow> bool) \<Rightarrow> frame \<Rightarrow> frame" where
  "select keep df = df\<lparr>rows := filter (\<lambda>(i, r). keep r) (rows df)\<rparr>"

text \<open>\<^verbatim>\<open>df.drop(c, axis=1)\<close>.\<close>

definition drop_column :: "string \<Rightarrow> frame \<Rightarrow> frame" where
  "drop_column c df =
     \<lparr>columns = filter (\<lambda>k. k \<noteq> c) (columns df),
      rows = map (\<lambda>(i, r). (i, r(c := None))) (rows df)\<rparr>"

text \<open>
  Reading \<^verbatim>\<open>df.loc[idx, c]\<close> raises \<^verbatim>\<open>KeyError\<close> when the label or the column is missing.
  Index labels are unique in the frames the application builds (a range index); with a
  repeated label the model reads the first row that has it.
\<close>

definition loc_get :: "frame \<Rightarrow> int \<Rightarrow> string \<Rightarrow> error + cell" where
  "loc_get df idx c =
     (case map_of (rows df) idx of
        None \<Rightarrow> Inl KeyError
      | Some r \<Rightarrow> if c \<in> set (columns df) then Inr (cell_at r c) else Inl KeyError)"

text \<open>
  Writing \<^verbatim>\<open>df.loc[idx, c] = v\<close> never raises: pandas sets the cell of every row labelled
  \<open>idx\<close>, and enlarges the frame when the key is new. A new column holds \<^verbatim>\<open>nan\<close> in the other
  rows; a new label appends a row that holds \<^verbatim>\<open>nan\<close> in the other columns.
\<close>

definition ensure_column :: "string \<Rightarrow> frame \<Rightarrow> frame" where
  "ensure_column c df = (if c \<in> set (columns df) then df else assign c (\<lambda>r. NaN) df)"

definition loc_set :: "int \<Rightarrow> string \<Rightarrow> cell \<Rightarrow> frame \<Rightarrow> frame" where
  "loc_set idx c v df =
     (let d = ensure_column c df
      in if idx \<in> set (index d)
         then d\<lparr>rows := map (\<lambda>(i, r). if i = idx then (i, r(c \<mapsto> v)) else (i, r)) (rows d)\<rparr>
         else d\<lparr>rows := rows d @ [(idx, (map_of (map (\<lambda>k. (k, NaN)) (columns d)))(c \<mapsto> v))]\<rparr>)"

section \<open>Library functions taken as parameters\<close>

text \<open>
  The functions of pandas, \<^verbatim>\<open>re\<close> and \<^verbatim>\<open>datetime\<close> whose results the model does not compute:
  the dtype pandas gave a column, the text of a timestamp, the parsing of dates, regular
  expressions and \<^verbatim>\<open>strftime\<close>. Every theorem holds for all of them.
\<close>

datatype dtype = Object | Int64 | Float64 | Other_dtype

record library =
  dtype_of :: "cell list \<Rightarrow> dtype"
  str_stamp :: "int \<Rightarrow> string"
  parse_datetime :: "cell \<Rightarrow> int option"
  parse_timestamp :: "string \<Rightarrow> int option"
  re_valid :: "string \<Rightarrow> bool"
  re_search_ci :: "string \<Rightarrow> string \<Rightarrow> bool"
  strftime_day :: "int \<Rightarrow> string"
  strftime_minute :: "int \<Rightarrow> string"

text \<open>\<^verbatim>\<open>astype(str)\<close> on one cell, which is \<^verbatim>\<open>str(value)\<close>.\<close>

fun astype_str :: "library \<Rightarrow> cell \<Rightarrow> string" where
  "astype_str lib NoneV = ''None''"
| "astype_str lib NaN = ''nan''"
| "astype_str lib (Str s) = s"
| "astype_str lib (Bool b) = (if b then ''True'' else ''False'')"
| "astype_str lib (Num n) = str_int n"
| "astype_str lib (Stamp t) = str_stamp lib t"

text \<open>
  \<^verbatim>\<open>pd.to_datetime(..., errors='coerce')\<close> on one cell; \<open>None\<close> is \<^verbatim>\<open>NaT\<close>. A timestamp is kept,
  a missing value gives \<^verbatim>\<open>NaT\<close>, anything else is parsed by the library.
\<close>

fun to_datetime :: "library \<Rightarrow> cell \<Rightarrow> int option" where
  "to_datetime lib (Stamp t) = Some t"
| "to_datetime lib NoneV = None"
| "to_datetime lib NaN = None"
| "to_datetime lib c = parse_datetime lib c"

text \<open>The argument of \<^verbatim>\<open>pd.Timestamp(...)\<close>: a string, or a date or timestamp value.\<close>

datatype date_arg = Date_str string | Date_val int

fun pd_Timestamp :: "library \<Rightarrow> date_arg \<Rightarrow> error + int" where
  "pd_Timestamp lib (Date_val t) = Inr t"
| "pd_Timestamp lib (Date_str s) = (case parse_timestamp lib s of Some t \<Rightarrow> Inr t | None \<Rightarrow> Inl ValueError)"

text \<open>\<^verbatim>\<open>Timestamp.normalize()\<close>: midnight of the same day.\<close>

definition normalize :: "int \<Rightarrow> int" where
  "normalize t = t - t mod 86400"

text \<open>\<^verbatim>\<open>pd.Timedelta(days=n)\<close>.\<close>

definition Timedelta_days :: "int \<Rightarrow> int" where
  "Timedelta_days n = n * 86400"

section \<open>Sorting a frame\<close>

text \<open>
  \<^verbatim>\<open>sort_values\<close> puts missing values last and compares the others; Python cannot compare a
  string with a number or a timestamp, and pandas then raises \<^verbatim>\<open>TypeError\<close>. The model sorts
  stably (pandas promises no order among equal keys of a single column).
\<close>

fun cell_kind :: "cell \<Rightarrow> nat" where
  "cell_kind (Str s) = 0"
| "cell_kind (Bool b) = 1"
| "cell_kind (Num n) = 1"
| "cell_kind (Stamp t) = 2"
| "cell_kind NoneV = 3"
| "cell_kind NaN = 3"

definition sortable :: "cell list \<Rightarrow> bool" where
  "sortable cs = (\<forall>a \<in> set cs. \<forall>b \<in> set cs. isna a \<or> isna b \<or> cell_kind a = cell_kind b)"

fun sort_rank :: "cell \<Rightarrow> nat \<times> int \<times> string" where
  "sort_rank NoneV = (1, 0, [])"
| "sort_rank NaN = (1, 0, [])"
| "sort_rank (Str s) = (0, 0, s)"
| "sort_rank (Bool b) = (0, (if b then 1 else 0), [])"
| "sort_rank (Num n) = (0, n, [])"
| "sort_rank (Stamp t) = (0, t, [])"

definition sort_values :: "string \<Rightarrow> frame \<Rightarrow> error + frame" where
  "sort_values key df =
     (if key \<notin> set (columns df) then Inl KeyError
      else if \<not> sortable (series df key) then Inl TypeError
      else Inr (df\<lparr>rows := sort_key (\<lambda>(i, r). sort_rank (cell_at r key)) (rows df)\<rparr>))"

text \<open>The table \<^verbatim>\<open>{'High': 3, 'Medium': 2, 'Low': 1}\<close> of \<^verbatim>\<open>get_daily_tasks\<close>, with
  \<^verbatim>\<open>.fillna(2)\<close> for every value the table does not hold.\<close>

definition priority_order :: "cell \<Rightarrow> int" where
  "priority_order c =
     (if c = Str ''High'' then 3 else if c = Str ''Medium'' then 2 else if c = Str ''Low'' then 1 else 2)"

fun num_of :: "cell \<Rightarrow> int" where
  "num_of (Num n) = n"
| "num_of c = 0"

text \<open>\<^verbatim>\<open>sort_values(['priority_order', 'follow_up_date'], ascending=[False, True])\<close>: the first key
  holds the numbers just assigned and is sorted downwards, the second upwards.\<close>

definition sort_daily_tasks :: "frame \<Rightarrow> error + frame" where
  "sort_daily_tasks df =
     (if ''priority_order'' \<notin> set (columns df) \<or> ''follow_up_date'' \<notin> set (columns df) then Inl KeyError
      else if \<not> sortable (series df ''follow_up_date'') then Inl TypeError
      else Inr (df\<lparr>rows := sort_key (\<lambda>(i, r). (- num_of (cell_at r ''priority_order''),
                                                 sort_rank (cell_at r ''follow_up_date''))) (rows df)\<rparr>))"

section \<open>The lead manager and the objects it works on\<close>

text \<open>
  The state of a session: the three fields of \<^verbatim>\<open>LeadManager\<close>, the two tables of the
  persistence gateway the manager writes (the last saved table, and the audit log with the
  values as they are before the gateway turns them into text), and the frames that queries
  allocate. A reference names either the frame held in \<^verbatim>\<open>self.leads_df\<close> or an allocated
  frame, so that an assignment through a reference changes the object it names and nothing
  else. The gateway swallows its own exceptions, so its calls never change the control flow.
\<close>

record lead_manager =
  leads_df :: "frame option"
  column_mapping :: "(string \<times> string) list"
  original_columns :: "string list"
  db_leads :: "(frame \<times> (string \<times> string) list \<times> string list) option"
  db_updates :: "(int \<times> string \<times> cell \<times> cell) list"
  objects :: "frame list"

datatype ref = Self_df | Obj nat

fun load :: "lead_manager \<Rightarrow> ref \<Rightarrow> frame" where
  "load s Self_df = the (leads_df s)"
| "load s (Obj n) = objects s ! n"

fun store :: "ref \<Rightarrow> frame \<Rightarrow> lead_manager \<Rightarrow> lead_manager" where
  "store Self_df df s = s\<lparr>leads_df := Some df\<rparr>"
| "store (Obj n) df s = s\<lparr>objects := (objects s)[n := df]\<rparr>"

text \<open>An operation that changes a frame in place, such as \<^verbatim>\<open>df[c] = v\<close> or \<^verbatim>\<open>df.loc[i, c] = v\<close>.\<close>

definition update_at :: "ref \<Rightarrow> (frame \<Rightarrow> frame) \<Rightarrow> lead_manager \<Rightarrow> lead_manager" where
  "update_at r f s = store r (f (load s r)) s"

text \<open>An operation that returns a new frame, such as \<^verbatim>\<open>df.copy()\<close>, \<^verbatim>\<open>df[mask]\<close>,
  \<^verbatim>\<open>df.sort_values(...)\<close>, \<^verbatim>\<open>df.drop(...)\<close> or \<^verbatim>\<open>pd.DataFrame()\<close>.\<close>

definition alloc :: "frame \<Rightarrow> lead_manager \<Rightarrow> ref \<times> lead_manager" where
  "alloc df s = (Obj (length (objects s)), s\<lparr>objects := objects s @ [df]\<rparr>)"

definition fresh :: "frame \<Rightarrow> lead_manager \<Rightarrow> (error + ref) \<times> lead_manager" where
  "fresh df s = (let (r, s') = alloc df s in (Inr r, s'))"

text \<open>\<^verbatim>\<open>d.get(k, default)\<close> on a dictionary.\<close>

definition get_default :: "('k \<times> 'v) list \<Rightarrow> 'k \<Rightarrow> 'v \<Rightarrow> 'v" where
  "get_default d k dflt = (case map_of d k of Some v \<Rightarrow> v | None \<Rightarrow> dflt)"

definition has_data :: "lead_manager \<Rightarrow> bool" where
  "has_data s = (case leads_df s of None \<Rightarrow> False | Some df \<Rightarrow> \<not> df_empty df)"

definition save_to_database :: "lead_manager \<Rightarrow> lead_manager" where
  "save_to_database s =
     (if has_data s
      then s\<lparr>db_leads := Some (load s Self_df, column_mapping s, original_columns s)\<rparr>
      else s)"

definition update_lead_field :: "int \<Rightarrow> string \<Rightarrow> cell \<Rightarrow> cell \<Rightarrow> lead_manager \<Rightarrow> lead_manager" where
  "update_lead_field lead_row_id field_name old_value new_value s =
     s\<lparr>db_updates := db_updates s @ [(lead_row_id, field_name, old_value, new_value)]\<rparr>"

section \<open>Import: \<^verbatim>\<open>load_data\<close>\<close>

definition null_values :: "string list" where
  "null_values = [''nan'', ''None'', ''NULL'', ''null'', ''<NA>'', []]"

text \<open>\<^verbatim>\<open>astype(str)\<close> followed by the six \<^verbatim>\<open>replace(null_val, None)\<close>, on one cell.\<close>

definition clean_cell :: "library \<Rightarrow> cell \<Rightarrow> cell" where
  "clean_cell lib c = (if astype_str lib c \<in> set null_values then NoneV else Str (astype_str lib c))"

text \<open>
  The body of the loop over the cells in \<^verbatim>\<open>_process_multiple_values\<close>. It runs on a column
  that \<^verbatim>\<open>_clean_data_types\<close> has just turned into strings and \<^verbatim>\<open>None\<close>, so the value that is split
  is a string.
\<close>

definition process_cell :: "cell \<Rightarrow> cell" where
  "process_cell cell_value =
     (if truthy cell_value \<and> cell_value \<noteq> Str ''None''
      then (case cell_value of
              Str v \<Rightarrow> (if length (unique_values v) > 1
                        then Str (str_join '', '' (unique_values v)) else cell_value)
            | _ \<Rightarrow> cell_value)
      else cell_value)"

definition process_multiple_values :: "string \<Rightarrow> frame \<Rightarrow> frame" where
  "process_multiple_values col df =
     (let column_name_lower = str_lower col;
          is_email_column = (\<exists>keyword \<in> set [''email'', ''mail'', ''e-mail''].
                               str_contains keyword column_name_lower);
          is_product_column = (\<exists>keyword \<in> set [''product'', ''item'', ''service'', ''offering''].
                               str_contains keyword column_name_lower)
      in if is_email_column \<or> is_product_column
         then assign col (\<lambda>r. process_cell (cell_at r col)) df
         else df)"

text \<open>One round of the loop of \<^verbatim>\<open>_clean_data_types\<close>. \<^verbatim>\<open>pd.to_numeric\<close> does not raise on a
  column whose dtype is already numeric, so that branch changes nothing.\<close>

definition clean_column :: "library \<Rightarrow> string \<Rightarrow> frame \<Rightarrow> frame" where
  "clean_column lib col df =
     (case dtype_of lib (series df col) of
        Object \<Rightarrow> process_multiple_values col (assign col (\<lambda>r. clean_cell lib (cell_at r col)) df)
      | Int64 \<Rightarrow> df
      | Float64 \<Rightarrow> df
      | Other_dtype \<Rightarrow> df)"

definition clean_data_types :: "library \<Rightarrow> frame \<Rightarrow> frame" where
  "clean_data_types lib df = foldl (\<lambda>d col. clean_column lib col d) df (columns df)"

definition standardize_columns :: "(string \<times> string) list \<Rightarrow> frame \<Rightarrow> frame" where
  "standardize_columns mapping df =
     foldl (\<lambda>d (standard_name, mapped_column).
              if mapped_column \<noteq> [] \<and> mapped_column \<in> set (columns d)
              then (if standard_name \<notin> set (columns d)
                    then assign standard_name (\<lambda>r. cell_at r mapped_column) d else d)
              else d) df mapping"

definition add_if_missing :: "string \<Rightarrow> cell \<Rightarrow> frame \<Rightarrow> frame" where
  "add_if_missing c v df = (if c \<notin> set (columns df) then set_column c v df else df)"

definition load_data :: "library \<Rightarrow> frame \<Rightarrow> (string \<times> string) list \<Rightarrow> lead_manager \<Rightarrow> lead_manager" where
  "load_data lib df mapping s =
     (let s1 = s\<lparr>leads_df := Some df,
                 column_mapping := filter (\<lambda>(k, v). v \<noteq> []) mapping,
                 original_columns := columns df\<rparr>;
          s2 = update_at Self_df (clean_data_types lib) s1;
          s3 = update_at Self_df (add_if_missing ''priority'' (Str ''Medium'')) s2;
          s4 = update_at Self_df (add_if_missing ''follow_up_date'' NoneV) s3;
          s5 = update_at Self_df (add_if_missing ''last_contact'' NoneV) s4;
          s6 = update_at Self_df (add_if_missing ''follow_up_completed'' (Bool False)) s5;
          s7 = update_at Self_df (standardize_columns (column_mapping s6)) s6
      in save_to_database s7)"

section \<open>Reading several e-mail addresses\<close>

definition get_multiple_emails :: "int \<Rightarrow> lead_manager \<Rightarrow> error + string list" where
  "get_multiple_emails lead_idx s =
     (case leads_df s of
        None \<Rightarrow> Inl AttributeError
      | Some df \<Rightarrow>
          let email_col = get_default (column_mapping s) ''email'' ''email''
          in if email_col \<notin> set (columns df) then Inr []
             else (case loc_get df lead_idx email_col of
                     Inl e \<Rightarrow> Inl e
                   | Inr email_value \<Rightarrow>
                       if \<not> truthy email_value \<or> email_value = Str ''None'' then Inr []
                       else (case email_value of
                               Str v \<Rightarrow> Inr (extract_emails v)
                             | _ \<Rightarrow> Inl AttributeError)))"

section \<open>Mutations\<close>

text \<open>Each mutation returns the exception it raised, if any, and the state it leaves. The clock
  is an argument: \<open>now\<close> is the value of \<^verbatim>\<open>datetime.now()\<close>.\<close>

definition update_lead_status ::
  "library \<Rightarrow> int \<Rightarrow> int \<Rightarrow> string \<Rightarrow> lead_manager \<Rightarrow> error option \<times> lead_manager" where
  "update_lead_status lib now lead_idx new_status s =
     (if \<not> has_data s then (None, s)
      else
        let mapped = get_default (column_mapping s) ''status'' ''status'';
            (status_col, s1) =
               (if mapped \<notin> set (columns (load s Self_df))
                then (''status'', update_at Self_df (set_column ''status'' NoneV) s)
                else (mapped, s))
        in case (if lead_idx \<in> set (index (load s1 Self_df))
                 then loc_get (load s1 Self_df) lead_idx status_col else Inr NoneV) of
             Inl e \<Rightarrow> (Some e, s1)
           | Inr old_status \<Rightarrow>
               let s2 = update_lead_field lead_idx ''status'' old_status (Str new_status) s1;
                   s3 = update_at Self_df (loc_set lead_idx status_col (Str new_status)) s2;
                   s4 = update_at Self_df
                          (loc_set lead_idx ''last_contact'' (Str (strftime_day lib now))) s3
               in (None, save_to_database s4))"

definition update_lead_priority ::
  "int \<Rightarrow> string \<Rightarrow> lead_manager \<Rightarrow> error option \<times> lead_manager" where
  "update_lead_priority lead_idx new_priority s =
     (if \<not> has_data s then (None, s)
      else
        case (if lead_idx \<in> set (index (load s Self_df))
              then loc_get (load s Self_df) lead_idx ''priority'' else Inr NoneV) of
          Inl e \<Rightarrow> (Some e, s)
        | Inr old_priority \<Rightarrow>
            let s1 = update_lead_field lead_idx ''priority'' old_priority (Str new_priority) s;
                s2 = update_at Self_df (loc_set lead_idx ''priority'' (Str new_priority)) s1
            in (None, save_to_database s2))"

definition schedule_followup ::
  "library \<Rightarrow> int \<Rightarrow> date_arg \<Rightarrow> lead_manager \<Rightarrow> error option \<times> lead_manager" where
  "schedule_followup lib lead_idx follow_up_date s =
     (if \<not> has_data s then (None, s)
      else
        case pd_Timestamp lib follow_up_date of
          Inl e \<Rightarrow> (Some e, s)
        | Inr ts \<Rightarrow>
            (case (if lead_idx \<in> set (index (load s Self_df))
                   then loc_get (load s Self_df) lead_idx ''follow_up_date'' else Inr NoneV) of
               Inl e \<Rightarrow> (Some e, s)
             | Inr old_date \<Rightarrow>
                 let s1 = update_lead_field lead_idx ''follow_up_date'' old_date (Stamp ts) s;
                     s2 = update_at Self_df (loc_set lead_idx ''follow_up_date'' (Stamp ts)) s1;
                     s3 = update_at Self_df (loc_set lead_idx ''follow_up_completed'' (Bool False)) s2
                 in (None, save_to_database s3)))"

definition add_note ::
  "library \<Rightarrow> int \<Rightarrow> int \<Rightarrow> string \<Rightarrow> lead_manager \<Rightarrow> error option \<times> lead_manager" where
  "add_note lib now lead_idx note s =
     (if \<not> has_data s \<or> str_strip note = [] then (None, s)
      else
        let mapped = get_default (column_mapping s) ''notes'' ''notes'';
            (notes_col, s1) =
               (if mapped \<notin> set (columns (load s Self_df))
                then (''notes'', update_at Self_df (set_column ''notes'' (Str [])) s)
                else (mapped, s))
        in case loc_get (load s1 Self_df) lead_idx notes_col of
             Inl e \<Rightarrow> (Some e, s1)
           | Inr current_note \<Rightarrow>
               let entry = ''['' @ strftime_minute lib now @ ''] '' @ note;
                   new_note = (if isna current_note \<or> current_note = Str [] then entry
                               else astype_str lib current_note @ [CHR 0x0A] @ entry);
                   s2 = update_lead_field lead_idx ''notes'' current_note (Str new_note) s1;
                   s3 = update_at Self_df (loc_set lead_idx notes_col (Str new_note)) s2
               in (None, save_to_database s3))"

definition complete_followup ::
  "library \<Rightarrow> int \<Rightarrow> int \<Rightarrow> lead_manager \<Rightarrow> error option \<times> lead_manager" where
  "complete_followup lib now lead_idx s =
     (if \<not> has_data s then (None, s)
      else
        let s1 = update_lead_field lead_idx ''follow_up_completed'' (Bool False) (Bool True) s;
            s2 = update_at Self_df (loc_set lead_idx ''follow_up_completed'' (Bool True)) s1;
            s3 = update_at Self_df
                   (loc_set lead_idx ''last_contact'' (Str (strftime_day lib now))) s2
        in (None, save_to_database s3))"

section \<open>Queries\<close>

text \<open>
  A query returns a reference to the frame it built, or the exception it raised, and the state
  it leaves. \<open>now\<close> is the value of \<^verbatim>\<open>pd.Timestamp.now()\<close>.
\<close>

text \<open>The three filters of \<^verbatim>\<open>get_filtered_leads\<close>, each on the frame the local variable
  \<^verbatim>\<open>df\<close> names. \<^verbatim>\<open>str.contains\<close> compiles its pattern as a regular expression and raises when
  the pattern is malformed.\<close>

definition search_columns_of :: "lead_manager \<Rightarrow> frame \<Rightarrow> string list" where
  "search_columns_of s df =
     concat (map (\<lambda>col. if col \<in> set (columns df) then [col]
                         else (case map_of (column_mapping s) col of
                                 Some m \<Rightarrow> if m \<noteq> [] \<and> m \<in> set (columns df) then [m] else []
                               | None \<Rightarrow> []))
                 [''name'', ''email'', ''company''])"

definition apply_search ::
  "library \<Rightarrow> string \<Rightarrow> ref \<Rightarrow> lead_manager \<Rightarrow> (error + ref) \<times> lead_manager" where
  "apply_search lib search_term df s =
     (if search_term \<noteq> []
      then (let search_columns = search_columns_of s (load s df)
            in if search_columns \<noteq> []
               then (if \<not> re_valid lib search_term then (Inl RegexError, s)
                     else fresh (select (\<lambda>r. \<exists>col \<in> set search_columns.
                                                col \<in> set (columns (load s df)) \<and>
                                                re_search_ci lib search_term (astype_str lib (cell_at r col)))
                                        (load s df)) s)
               else (Inr df, s))
      else (Inr df, s))"

definition apply_status_filter ::
  "library \<Rightarrow> string \<Rightarrow> ref \<Rightarrow> lead_manager \<Rightarrow> (error + ref) \<times> lead_manager" where
  "apply_status_filter lib status_filter df s =
     (if status_filter \<noteq> ''All''
      then (let status_col = get_default (column_mapping s) ''status'' ''status''
            in if status_col \<in> set (columns (load s df))
               then (if \<not> re_valid lib status_filter then (Inl RegexError, s)
                     else fresh (select (\<lambda>r. re_search_ci lib status_filter
                                                 (astype_str lib (cell_at r status_col)))
                                        (load s df)) s)
               else (Inr df, s))
      else (Inr df, s))"

definition apply_priority_filter ::
  "string \<Rightarrow> ref \<Rightarrow> lead_manager \<Rightarrow> (error + ref) \<times> lead_manager" where
  "apply_priority_filter priority_filter df s =
     (if priority_filter \<noteq> ''All'' \<and> ''priority'' \<in> set (columns (load s df))
      then fresh (select (\<lambda>r. cell_at r ''priority'' = Str priority_filter) (load s df)) s
      else (Inr df, s))"

text \<open>The \<^verbatim>\<open>try\<close> block of \<^verbatim>\<open>get_filtered_leads\<close>.\<close>

definition filtered_leads_try ::
  "library \<Rightarrow> string \<Rightarrow> string \<Rightarrow> string \<Rightarrow> lead_manager \<Rightarrow> (error + ref) \<times> lead_manager" where
  "filtered_leads_try lib search_term status_filter priority_filter s =
     (let (df, s0) = alloc (load s Self_df) s
      in case apply_search lib search_term df s0 of
           (Inl e, s1) \<Rightarrow> (Inl e, s1)
         | (Inr df1, s1) \<Rightarrow>
             (case apply_status_filter lib status_filter df1 s1 of
                (Inl e, s2) \<Rightarrow> (Inl e, s2)
              | (Inr df2, s2) \<Rightarrow> apply_priority_filter priority_filter df2 s2))"

text \<open>The whole method: \<^verbatim>\<open>except Exception\<close> returns an empty \<^verbatim>\<open>pd.DataFrame()\<close>.\<close>

definition get_filtered_leads ::
  "library \<Rightarrow> string \<Rightarrow> string \<Rightarrow> string \<Rightarrow> lead_manager \<Rightarrow> (error + ref) \<times> lead_manager" where
  "get_filtered_leads lib search_term status_filter priority_filter s =
     (if \<not> has_data s then fresh empty_frame s
      else (case filtered_leads_try lib search_term status_filter priority_filter s of
              (Inl e, s') \<Rightarrow> fresh empty_frame s'
            | (Inr df, s') \<Rightarrow> (Inr df, s')))"

definition get_unique_statuses :: "library \<Rightarrow> lead_manager \<Rightarrow> string list \<times> lead_manager" where
  "get_unique_statuses lib s =
     (if \<not> has_data s then ([], s)
      else
        let status_col = get_default (column_mapping s) ''status'' ''status''
        in if status_col \<in> set (columns (load s Self_df))
           then (let unique_statuses =
                       dict_fromkeys (map (astype_str lib)
                         (filter (\<lambda>c. \<not> isna c) (series (load s Self_df) status_col)))
                 in (sort (filter (\<lambda>status. status \<noteq> [] \<and> status \<noteq> ''nan'') unique_statuses), s))
           else ([], s))"

text \<open>The masks of the three time windows. A comparison with \<^verbatim>\<open>NaT\<close> is false.\<close>

definition open_followup :: "row \<Rightarrow> bool" where
  "open_followup r =
     (\<not> isna (cell_at r ''follow_up_date'') \<and> eq_False (cell_at r ''follow_up_completed''))"

definition upcoming_mask :: "library \<Rightarrow> int \<Rightarrow> int \<Rightarrow> row \<Rightarrow> bool" where
  "upcoming_mask lib today end_date r =
     (open_followup r \<and>
      (case to_datetime lib (cell_at r ''follow_up_date'') of
         Some t \<Rightarrow> t \<ge> today \<and> t \<le> end_date | None \<Rightarrow> False))"

definition overdue_mask :: "library \<Rightarrow> int \<Rightarrow> row \<Rightarrow> bool" where
  "overdue_mask lib today r =
     (open_followup r \<and>
      (case to_datetime lib (cell_at r ''follow_up_date'') of
         Some t \<Rightarrow> t < today | None \<Rightarrow> False))"

definition daily_mask :: "library \<Rightarrow> int \<Rightarrow> row \<Rightarrow> bool" where
  "daily_mask lib target_date r =
     (open_followup r \<and>
      (case to_datetime lib (cell_at r ''follow_up_date'') of
         Some t \<Rightarrow> normalize t = target_date | None \<Rightarrow> False))"

text \<open>Reading \<^verbatim>\<open>self.leads_df['follow_up_date']\<close> and \<^verbatim>\<open>self.leads_df['follow_up_completed']\<close>
  raises \<^verbatim>\<open>KeyError\<close> when the column is missing.\<close>

definition followup_columns_present :: "frame \<Rightarrow> bool" where
  "followup_columns_present df =
     (''follow_up_date'' \<in> set (columns df) \<and> ''follow_up_completed'' \<in> set (columns df))"

definition get_upcoming_followups ::
  "library \<Rightarrow> int \<Rightarrow> int \<Rightarrow> lead_manager \<Rightarrow> (error + ref) \<times> lead_manager" where
  "get_upcoming_followups lib now days_ahead s =
     (if \<not> has_data s then fresh empty_frame s
      else
        let today = normalize now;
            end_date = today + Timedelta_days days_ahead
        in if \<not> followup_columns_present (load s Self_df) then (Inl KeyError, s)
           else
             let (selected, s1) = alloc (select (upcoming_mask lib today end_date) (load s Self_df)) s;
                 (upcoming, s2) = alloc (load s1 selected) s1
             in if \<not> df_empty (load s2 upcoming)
                then (case sort_values ''follow_up_date'' (load s2 upcoming) of
                        Inl e \<Rightarrow> (Inl e, s2)
                      | Inr sorted_df \<Rightarrow> fresh sorted_df s2)
                else (Inr upcoming, s2))"

definition get_overdue_followups ::
  "library \<Rightarrow> int \<Rightarrow> lead_manager \<Rightarrow> (error + ref) \<times> lead_manager" where
  "get_overdue_followups lib now s =
     (if \<not> has_data s then fresh empty_frame s
      else
        let today = normalize now
        in if \<not> followup_columns_present (load s Self_df) then (Inl KeyError, s)
           else
             let (selected, s1) = alloc (select (overdue_mask lib today) (load s Self_df)) s;
                 (overdue, s2) = alloc (load s1 selected) s1
             in if \<not> df_empty (load s2 overdue)
                then (case sort_values ''follow_up_date'' (load s2 overdue) of
                        Inl e \<Rightarrow> (Inl e, s2)
                      | Inr sorted_df \<Rightarrow> fresh sorted_df s2)
                else (Inr overdue, s2))"

definition get_daily_tasks ::
  "library \<Rightarrow> date_arg \<Rightarrow> lead_manager \<Rightarrow> (error + ref) \<times> lead_manager" where
  "get_daily_tasks lib date s =
     (if \<not> has_data s then fresh empty_frame s
      else
        case pd_Timestamp lib date of
          Inl e \<Rightarrow> (Inl e, s)
        | Inr ts \<Rightarrow>
            let target_date = normalize ts
            in if \<not> followup_columns_present (load s Self_df) then (Inl KeyError, s)
               else
                 let (selected, s1) = alloc (select (daily_mask lib target_date) (load s Self_df)) s;
                     (daily_tasks, s2) = alloc (load s1 selected) s1
                 in if \<not> df_empty (load s2 daily_tasks)
                    then (if ''priority'' \<notin> set (columns (load s2 daily_tasks)) then (Inl KeyError, s2)
                          else
                            let s3 = update_at daily_tasks
                                       (assign ''priority_order''
                                          (\<lambda>r. Num (priority_order (cell_at r ''priority'')))) s2
                            in case sort_daily_tasks (load s3 daily_tasks) of
                                 Inl e \<Rightarrow> (Inl e, s3)
                               | Inr sorted_df \<Rightarrow>
                                   let (daily_sorted, s4) = alloc sorted_df s3
                                   in fresh (drop_column ''priority_order'' (load s4 daily_sorted)) s4)
                    else (Inr daily_tasks, s2))"

section \<open>Analytics\<close>

record analytics =
  total_leads :: nat
  active_followups :: nat
  overdue_tasks :: nat
  qualified_leads :: nat
  status_distribution :: "cell \<rightharpoonup> nat"
  priority_distribution :: "cell \<rightharpoonup> nat"

text \<open>\<^verbatim>\<open>dropna().value_counts().to_dict()\<close>: every value that occurs, with how often.\<close>

definition value_counts :: "cell list \<Rightarrow> (cell \<rightharpoonup> nat)" where
  "value_counts vals =
     (let present = filter (\<lambda>c. \<not> isna c) vals
      in (\<lambda>v. if v \<in> set present then Some (count_list present v) else None))"

definition qualified_statuses :: "string list" where
  "qualified_statuses = [''qualified'', ''closed'', ''won'']"

text \<open>\<^verbatim>\<open>astype(str).str.lower().str.contains(status, na=False).sum()\<close> for one keyword: the three
  keywords are plain letters, for which the regular expression search is the substring test.\<close>

definition keyword_count :: "library \<Rightarrow> cell list \<Rightarrow> string \<Rightarrow> nat" where
  "keyword_count lib vals status =
     length (filter (\<lambda>c. str_contains status (str_lower (astype_str lib c))) vals)"

definition get_analytics ::
  "library \<Rightarrow> int \<Rightarrow> lead_manager \<Rightarrow> (error + analytics) \<times> lead_manager" where
  "get_analytics lib now s =
     (if \<not> has_data s
      then (Inr \<lparr>total_leads = 0, active_followups = 0, overdue_tasks = 0, qualified_leads = 0,
                 status_distribution = Map.empty, priority_distribution = Map.empty\<rparr>, s)
      else
        let df = load s Self_df;
            today = normalize now
        in if \<not> followup_columns_present df then (Inl KeyError, s)
           else
             let total = length (rows df);
                 active = length (filter (\<lambda>(i, r). open_followup r) (rows df));
                 overdue = length (filter (\<lambda>(i, r). overdue_mask lib today r) (rows df));
                 status_col = get_default (column_mapping s) ''status'' ''status'';
                 status_dist = (if status_col \<in> set (columns df)
                                then value_counts (series df status_col) else Map.empty)
             in if ''priority'' \<notin> set (columns df) then (Inl KeyError, s)
                else
                  let priority_dist = value_counts (series df ''priority'');
                      qualified = (if status_col \<in> set (columns df)
                                   then foldl (\<lambda>n status. n + keyword_count lib (series df status_col) status)
                                              0 qualified_statuses
                                   else 0)
                  in (Inr \<lparr>total_leads = total, active_followups = active, overdue_tasks = overdue,
                            qualified_leads = qualified, status_distribution = status_dist,
                            priority_distribution = priority_dist\<rparr>, s))"

section \<open>Notions used to state the properties\<close>

text \<open>The frame a query returned, read from the state the query left.\<close>

definition result_frame :: "(error + ref) \<times> lead_manager \<Rightarrow> error + frame" where
  "result_frame res = (case res of (Inl e, s') \<Rightarrow> Inl e | (Inr r, s') \<Rightarrow> Inr (load s' r))"

text \<open>The index labels of the records a query returned; none when it raised.\<close>

definition result_index :: "(error + ref) \<times> lead_manager \<Rightarrow> int set" where
  "result_index res = (case result_frame res of Inl e \<Rightarrow> {} | Inr df \<Rightarrow> set (index df))"

text \<open>The lead store of \<open>s'\<close> is the one of \<open>s\<close>: the table, the column mapping and the list of
  original columns.\<close>

definition same_store :: "lead_manager \<Rightarrow> lead_manager \<Rightarrow> bool" where
  "same_store s s' =
     (leads_df s' = leads_df s \<and> column_mapping s' = column_mapping s \<and>
      original_columns s' = original_columns s)"

text \<open>The record labelled \<open>idx\<close> exists and holds \<open>v\<close> in column \<open>c\<close>.\<close>

definition field_is :: "frame \<Rightarrow> int \<Rightarrow> string \<Rightarrow> cell \<Rightarrow> bool" where
  "field_is df idx c v =
     (idx \<in> set (index df) \<and> c \<in> set (columns df) \<and>
      (\<forall>(i, r) \<in> set (rows df). i = idx \<longrightarrow> r c = Some v))"

text \<open>What the two follow-up windows and the daily view return, as functions of the table.\<close>

definition window_result :: "(row \<Rightarrow> bool) \<Rightarrow> frame \<Rightarrow> error + frame" where
  "window_result keep df =
     (if \<not> followup_columns_present df then Inl KeyError
      else if df_empty (select keep df) then Inr (select keep df)
      else sort_values ''follow_up_date'' (select keep df))"

definition daily_result :: "(row \<Rightarrow> bool) \<Rightarrow> frame \<Rightarrow> error + frame" where
  "daily_result keep df =
     (if \<not> followup_columns_present df then Inl KeyError
      else if df_empty (select keep df) then Inr (select keep df)
      else if ''priority'' \<notin> set (columns df) then Inl KeyError
      else (case sort_daily_tasks (assign ''priority_order''
                    (\<lambda>r. Num (priority_order (cell_at r ''priority''))) (select keep df)) of
              Inl e \<Rightarrow> Inl e
            | Inr sorted_df \<Rightarrow> Inr (drop_column ''priority_order'' sorted_df)))"

section \<open>Example sessions\<close>

text \<open>A library for the examples: every column is textual, no string parses as a date, a
  pattern is searched as a plain substring without regard to case, and the clock reads
  4 November 2026.\<close>

definition example_lib :: library where
  "example_lib =
     \<lparr>dtype_of = (\<lambda>cs. Object), str_stamp = (\<lambda>t. ''timestamp''),
      parse_datetime = (\<lambda>c. None), parse_timestamp = (\<lambda>s. None), re_valid = (\<lambda>p. True),
      re_search_ci = (\<lambda>p s. str_contains (str_lower p) (str_lower s)),
      strftime_day = (\<lambda>t. ''2026-11-04''), strftime_minute = (\<lambda>t. ''2026-11-04 10:00'')\<rparr>"

definition manager_of :: "frame \<Rightarrow> (string \<times> string) list \<Rightarrow> lead_manager" where
  "manager_of df mapping =
     \<lparr>leads_df = Some df, column_mapping = mapping, original_columns = columns df,
      db_leads = None, db_updates = [], objects = []\<rparr>"

definition lead_columns :: "string list" where
  "lead_columns = [''name'', ''status'', ''priority'', ''follow_up_date'', ''last_contact'',
                   ''follow_up_completed'']"

definition lead_row :: "string \<Rightarrow> string \<Rightarrow> cell \<Rightarrow> bool \<Rightarrow> row" where
  "lead_row name status follow_up completed =
     [''name'' \<mapsto> Str name, ''status'' \<mapsto> Str status, ''priority'' \<mapsto> Str ''Medium'',
      ''follow_up_date'' \<mapsto> follow_up, ''last_contact'' \<mapsto> NoneV,
      ''follow_up_completed'' \<mapsto> Bool completed]"

text \<open>One lead, labelled 0, with no follow-up.\<close>

definition one_lead :: lead_manager where
  "one_lead = manager_of \<lparr>columns = lead_columns, rows = [(0, lead_row ''Ann'' ''new'' NoneV False)]\<rparr> []"

text \<open>Two open follow-ups on the same calendar day, seven days after the day of second 1000:
  one at midnight (second 604800) and one at nine o'clock (second 637200).\<close>

definition two_followups :: lead_manager where
  "two_followups =
     manager_of \<lparr>columns = lead_columns,
                 rows = [(0, lead_row ''Ann'' ''new'' (Stamp 604800) False),
                         (1, lead_row ''Bob'' ''new'' (Stamp 637200) False)]\<rparr> []"

text \<open>One lead whose e-mail column \<open>Mail\<close>, mapped to \<open>email\<close>, holds the given cell.\<close>

definition mail_lead :: "cell \<Rightarrow> lead_manager" where
  "mail_lead email_value =
     manager_of \<lparr>columns = [''Name'', ''Mail''],
                 rows = [(0, [''Name'' \<mapsto> Str ''Ann'', ''Mail'' \<mapsto> email_value])]\<rparr>
                [(''name'', ''Name''), (''email'', ''Mail'')]"

section \<open>Management columns\<close>





section \<open>An imported sheet\<close>

text \<open>A manager that has loaded nothing, and a sheet to import: the column \<open>Stage\<close> is mapped to
  \<open>status\<close>, \<open>Mail\<close> to \<open>email\<close>, and \<open>phone\<close> is left unmapped.\<close>

definition new_manager :: lead_manager where
  "new_manager = \<lparr>leads_df = None, column_mapping = [], original_columns = [],
                   db_leads = None, db_updates = [], objects = []\<rparr>"



section \<open>The status column\<close>

text \<open>The column the manager reads the status from:
  \<^verbatim>\<open>status_col = self.column_mapping.get('status', 'status')\<close>.\<close>

definition status_column :: "lead_manager \<Rightarrow> string" where
  "status_column s = get_default (column_mapping s) ''status'' ''status''"




section \<open>The resolution order of the specification\<close>




text \<open>
  A store in which the alias and the mapped column differ. Its table and its mapping are those
  a session reaches that imports the sheet below with \<open>Stage\<close> mapped to \<open>status\<close> (so that
  \<open>load_data\<close> copies \<open>Stage\<close> into the alias column \<open>status\<close>) and then updates the status of
  record 0 from \<open>new\<close> to \<open>qualified\<close>: \<open>update_lead_status\<close> writes the mapped column \<open>Stage\<close>
  and leaves the alias.
\<close>

definition stage_sheet :: frame where
  "stage_sheet =
     \<lparr>columns = [''Name'', ''Stage''],
      rows = [(0, [''Name'' \<mapsto> Str ''Ann'', ''Stage'' \<mapsto> Str ''new'']),
              (1, [''Name'' \<mapsto> Str ''Bob'', ''Stage'' \<mapsto> Str ''Closed Won''])]\<rparr>"

definition stale_session :: "error option \<times> lead_manager" where
  "stale_session =
     update_lead_status example_lib 1000 0 ''qualified''
       (load_data example_lib stage_sheet [(''name'', ''Name''), (''status'', ''Stage'')] new_manager)"

text \<open>A table as lists: its columns, and for each record its label and its cells in the order of
  the columns.\<close>

definition table_of :: "frame \<Rightarrow> string list \<times> (int \<times> cell option list) list" where
  "table_of df = (columns df, map (\<lambda>(i, r). (i, map r (columns df))) (rows df))"

definition stale_status :: lead_manager where
  "stale_status =
     manager_of
       \<lparr>columns = [''Name'', ''Stage'', ''priority'', ''follow_up_date'', ''last_contact'',
                   ''follow_up_completed'', ''name'', ''status''],
        rows = [(0, [''Name'' \<mapsto> Str ''Ann'', ''Stage'' \<mapsto> Str ''qualified'',
                     ''priority'' \<mapsto> Str ''Medium'', ''follow_up_date'' \<mapsto> NoneV,
                     ''last_contact'' \<mapsto> Str ''2026-11-04'', ''follow_up_completed'' \<mapsto> Bool False,
                     ''name'' \<mapsto> Str ''Ann'', ''status'' \<mapsto> Str ''new'']),
                (1, [''Name'' \<mapsto> Str ''Bob'', ''Stage'' \<mapsto> Str ''Closed Won'',
                     ''priority'' \<mapsto> Str ''Medium'', ''follow_up_date'' \<mapsto> NoneV,
                     ''last_contact'' \<mapsto> NoneV, ''follow_up_completed'' \<mapsto> Bool False,
                     ''name'' \<mapsto> Str ''Bob'', ''status'' \<mapsto> Str ''Closed Won''])]\<rparr>
       [(''name'', ''Name''), (''status'', ''Stage'')]"

section \<open>Properties of the string functions and of the value splitter\<close>

lemma str_split_set: "p \<in> set (str_split sep s) \<Longrightarrow> set p \<subseteq> set s"
proof (induction sep s arbitrary: p rule: str_split.induct)
  case (1 sep)
  then show ?case by simp
next
  case (2 sep c cs)
  show ?case
  proof (cases "sep \<noteq> [] \<and> prefix sep (c # cs)")
    case True
    with 2 have "p = [] \<or> p \<in> set (str_split sep (drop (length sep) (c # cs)))" by auto
    then show ?thesis
    proof
      assume "p = []" then show ?thesis by simp
    next
      assume "p \<in> set (str_split sep (drop (length sep) (c # cs)))"
      then have "set p \<subseteq> set (drop (length sep) (c # cs))" using 2(1) True by blast
      then show ?thesis using set_drop_subset by fastforce
    qed
  next
    case False
    then have eq: "str_split sep (c # cs) = (case str_split sep cs of [] \<Rightarrow> [[c]] | q # qs \<Rightarrow> (c # q) # qs)"
      by auto
    show ?thesis
    proof (cases "str_split sep cs")
      case Nil
      with eq 2(3) show ?thesis by auto
    next
      case (Cons q qs)
      with eq 2(3) have "p = c # q \<or> p \<in> set qs" by auto
      then show ?thesis
      proof
        assume "p = c # q"
        moreover have "set q \<subseteq> set cs" using 2(2)[OF False, of q] Cons by simp
        ultimately show ?thesis by auto
      next
        assume "p \<in> set qs"
        then have "set p \<subseteq> set cs" using 2(2)[OF False, of p] Cons by simp
        then show ?thesis by auto
      qed
    qed
  qed
qed

lemma str_split_char_free: "p \<in> set (str_split [c] s) \<Longrightarrow> c \<notin> set p"
proof (induction s arbitrary: p)
  case Nil
  then show ?case by simp
next
  case (Cons a s)
  show ?case
  proof (cases "a = c")
    case True
    with Cons show ?thesis by auto
  next
    case False
    with Cons show ?thesis by (cases "str_split [c] s") auto
  qed
qed

lemma str_split_absent: "\<not> set sep \<subseteq> set s \<Longrightarrow> str_split sep s = [s]"
proof (induction s)
  case Nil
  then show ?case by simp
next
  case (Cons a s)
  have np: "\<not> prefix sep (a # s)"
  proof
    assume "prefix sep (a # s)"
    then have "set sep \<subseteq> set (a # s)" by (rule set_mono_prefix)
    with Cons.prems show False by simp
  qed
  have "\<not> set sep \<subseteq> set s" using Cons.prems by auto
  then have "str_split sep s = [s]" by (rule Cons.IH)
  with np show ?case by simp
qed

lemma str_split_at_char: "c \<notin> set f \<Longrightarrow> str_split [c] (f @ c # t) = f # str_split [c] t"
  by (induction f) auto

lemma str_strip_set: "set (str_strip s) \<subseteq> set s"
proof -
  have "set (dropWhile is_space (rev (dropWhile is_space s))) \<subseteq> set (rev (dropWhile is_space s))"
    by (rule set_dropWhileD[THEN subsetI])
  also have "\<dots> \<subseteq> set s" using set_dropWhileD by fastforce
  finally show ?thesis by (simp add: str_strip_def)
qed

lemma last_dropWhile_keep: "dropWhile P xs \<noteq> [] \<Longrightarrow> last (dropWhile P xs) = last xs"
  by (induction xs) (auto split: if_splits)

lemma stripped_strip_id: "stripped s \<Longrightarrow> str_strip s = s"
proof -
  assume a: "stripped s"
  then have 1: "dropWhile is_space s = s" by (cases s) (auto simp: stripped_def)
  have "rev s \<noteq> []" "\<not> is_space (hd (rev s))" using a by (auto simp: stripped_def hd_rev)
  then have 2: "dropWhile is_space (rev s) = rev s" by (cases "rev s") auto
  show ?thesis by (simp add: str_strip_def 1 2)
qed

lemma str_strip_stripped: "str_strip s \<noteq> [] \<Longrightarrow> stripped (str_strip s)"
proof -
  assume ne: "str_strip s \<noteq> []"
  define t where "t = dropWhile is_space s"
  define u where "u = dropWhile is_space (rev t)"
  have su: "str_strip s = rev u" by (simp add: str_strip_def t_def u_def)
  with ne have une: "u \<noteq> []" by simp
  then have hu: "\<not> is_space (hd u)" unfolding u_def by (rule hd_dropWhile)
  have tne: "t \<noteq> []" using une u_def by auto
  then have ht: "\<not> is_space (hd t)" unfolding t_def by (rule hd_dropWhile)
  have "last u = last (rev t)" using une unfolding u_def by (rule last_dropWhile_keep)
  also have "\<dots> = hd t" using tne by (simp add: last_rev)
  finally have lu: "\<not> is_space (last u)" using ht by simp
  show ?thesis using une hu lu by (simp add: su stripped_def hd_rev last_rev)
qed

lemma strip_space_cons: "stripped f \<Longrightarrow> str_strip (CHR '' '' # f) = f"
proof -
  assume a: "stripped f"
  have "dropWhile is_space (CHR '' '' # f) = dropWhile is_space f" by (simp add: is_space_def)
  then have "str_strip (CHR '' '' # f) = str_strip f" by (simp add: str_strip_def)
  with a show ?thesis by (simp add: stripped_strip_id)
qed

lemma split_pass_frag:
  assumes "f \<in> set (split_pass sep vals)"
  shows "stripped f \<and> (\<exists>v \<in> set vals. set f \<subseteq> set v)"
proof -
  from assms obtain v p where v: "v \<in> set vals" and p: "p \<in> set (str_split sep v)"
    and ne: "str_strip p \<noteq> []" and f: "f = str_strip p"
    by (auto simp: split_pass_def)
  have "set f \<subseteq> set p" using f str_strip_set by simp
  also have "\<dots> \<subseteq> set v" using p by (rule str_split_set)
  finally have "set f \<subseteq> set v" .
  moreover have "stripped f" using ne f str_strip_stripped by simp
  ultimately show ?thesis using v by blast
qed

lemma split_pass_char_free:
  assumes "f \<in> set (split_pass [c] vals)"
  shows "c \<notin> set f"
proof -
  from assms obtain v p where p: "p \<in> set (str_split [c] v)" and f: "f = str_strip p"
    by (auto simp: split_pass_def)
  have "c \<notin> set p" using p by (rule str_split_char_free)
  then show ?thesis using f str_strip_set by blast
qed

lemma split_pass_avoid:
  assumes "\<forall>v \<in> set vals. set v \<inter> B = {}" "f \<in> set (split_pass sep vals)"
  shows "set f \<inter> B = {}"
  using split_pass_frag[OF assms(2)] assms(1) by blast

lemma split_pass_id:
  assumes "\<forall>f \<in> set fs. stripped f \<and> \<not> set sep \<subseteq> set f"
  shows "split_pass sep fs = fs"
  using assms
proof (induction fs)
  case Nil
  then show ?case by (simp add: split_pass_def)
next
  case (Cons f fs)
  have 1: "str_split sep f = [f]" using Cons.prems by (simp add: str_split_absent)
  have 2: "str_strip f = f" using Cons.prems by (simp add: stripped_strip_id)
  have 3: "f \<noteq> []" using Cons.prems by (simp add: stripped_def)
  have "split_pass sep fs = fs" using Cons by simp
  then show ?case using 1 2 3 by (simp add: split_pass_def)
qed

lemma split_pass_Nil: "split_pass sep [] = []"
  by (simp add: split_pass_def)

lemma str_split_join:
  assumes "\<forall>f \<in> set (f0 # fs). CHR '','' \<notin> set f"
  shows "str_split '','' (str_join '', '' (f0 # fs)) = f0 # map ((#) CHR '' '') fs"
  using assms
proof (induction fs arbitrary: f0)
  case Nil
  then have "\<not> set '','' \<subseteq> set f0" by simp
  then show ?case by (simp add: str_split_absent)
next
  case (Cons g gs)
  have c0: "CHR '','' \<notin> set f0" using Cons.prems by simp
  have cg: "CHR '','' \<notin> set (CHR '' '' # g)" using Cons.prems by simp
  have ih: "str_split '','' (str_join '', '' (g # gs)) = g # map ((#) CHR '' '') gs"
    using Cons.IH[of g] Cons.prems by simp
  have step: "str_split '','' (CHR '' '' # str_join '', '' (g # gs)) = (CHR '' '' # g) # map ((#) CHR '' '') gs"
    using ih by simp
  have "str_join '', '' (f0 # g # gs) = f0 @ CHR '','' # (CHR '' '' # str_join '', '' (g # gs))"
    by simp
  then have "str_split '','' (str_join '', '' (f0 # g # gs))
      = f0 # str_split '','' (CHR '' '' # str_join '', '' (g # gs))"
    using str_split_at_char[OF c0] by simp
  then show ?case using step by simp
qed

lemma str_join_set: "set (str_join '', '' fs) \<subseteq> \<Union> (set ` set fs) \<union> {CHR '','', CHR '' ''}"
  by (induction "'', ''" fs rule: str_join.induct) auto

lemma str_join_stripped:
  "fs \<noteq> [] \<Longrightarrow> \<forall>f \<in> set fs. stripped f \<Longrightarrow> stripped (str_join '', '' fs)"
proof (induction "'', ''" fs rule: str_join.induct)
  case 1
  then show ?case by simp
next
  case (2 x)
  then show ?case by simp
next
  case (3 x y ys)
  then have r: "stripped (str_join '', '' (y # ys))" by simp
  have x: "stripped x" using 3 by simp
  show ?case using r x by (auto simp: stripped_def)
qed

lemma split_pass_comma_join:
  assumes "fs \<noteq> []" "\<forall>f \<in> set fs. stripped f \<and> CHR '','' \<notin> set f"
  shows "split_pass '','' [str_join '', '' fs] = fs"
proof -
  obtain f0 gs where fs: "fs = f0 # gs" using assms(1) by (cases fs) auto
  have sp: "str_split '','' (str_join '', '' fs) = f0 # map ((#) CHR '' '') gs"
    unfolding fs using assms(2) fs by (intro str_split_join) simp
  have f0: "str_strip f0 = f0" "f0 \<noteq> []" using assms(2) fs by (auto simp: stripped_strip_id stripped_def)
  have gs: "\<forall>g \<in> set gs. str_strip (CHR '' '' # g) = g \<and> g \<noteq> []"
    using assms(2) fs by (auto simp: strip_space_cons stripped_def)
  have a: "filter (\<lambda>v. str_strip v \<noteq> []) (map ((#) CHR '' '') gs) = map ((#) CHR '' '') gs"
    using gs by (auto simp: filter_id_conv)
  have b: "map str_strip (map ((#) CHR '' '') gs) = gs"
    using gs by (simp add: map_idI)
  show ?thesis using sp f0 a b by (simp add: split_pass_def fs)
qed

lemma fromkeys_into_set: "set (fromkeys_into seen xs) = set seen \<union> set xs"
  by (induction xs arbitrary: seen) auto

lemma fromkeys_into_distinct: "distinct seen \<Longrightarrow> distinct (fromkeys_into seen xs)"
  by (induction xs arbitrary: seen) auto

lemma fromkeys_into_id: "distinct (seen @ xs) \<Longrightarrow> fromkeys_into seen xs = seen @ xs"
  by (induction xs arbitrary: seen) auto

lemma dict_fromkeys_set: "set (dict_fromkeys xs) = set xs"
  by (simp add: dict_fromkeys_def fromkeys_into_set)

lemma dict_fromkeys_distinct: "distinct (dict_fromkeys xs)"
  by (simp add: dict_fromkeys_def fromkeys_into_distinct)

lemma dict_fromkeys_id: "distinct xs \<Longrightarrow> dict_fromkeys xs = xs"
  by (simp add: dict_fromkeys_def fromkeys_into_id)

text \<open>What the cascade leaves: fragments without outer whitespace and without any of the
  characters \<open>;\<close> \<open>,\<close> \<open>|\<close> and line feed.\<close>

lemma value_cascade_frags:
  assumes "f \<in> set (split_cascade value_separators x)"
  shows "stripped f \<and> CHR '';'' \<notin> set f \<and> CHR '','' \<notin> set f \<and> CHR ''|'' \<notin> set f \<and> CHR 0x0A \<notin> set f"
proof -
  define v1 where "v1 = split_pass '';'' [x]"
  define v2 where "v2 = split_pass '','' v1"
  define v3 where "v3 = split_pass ''|'' v2"
  define v4 where "v4 = split_pass [CHR 0x0A] v3"
  have f5: "f \<in> set (split_pass [CHR 0x0D, CHR 0x0A] v4)"
    using assms by (simp add: split_cascade_def value_separators_def v1_def v2_def v3_def v4_def)
  from split_pass_frag[OF f5] obtain g4 where st: "stripped f" and g4: "g4 \<in> set v4" "set f \<subseteq> set g4"
    by blast
  have n4: "CHR 0x0A \<notin> set g4" using g4(1) unfolding v4_def by (rule split_pass_char_free)
  from split_pass_frag[of g4 "[CHR 0x0A]" v3] g4(1) obtain g3 where g3: "g3 \<in> set v3" "set g4 \<subseteq> set g3"
    unfolding v4_def by blast
  have n3: "CHR ''|'' \<notin> set g3" using g3(1) unfolding v3_def by (rule split_pass_char_free)
  from split_pass_frag[of g3 "''|''" v2] g3(1) obtain g2 where g2: "g2 \<in> set v2" "set g3 \<subseteq> set g2"
    unfolding v3_def by blast
  have n2: "CHR '','' \<notin> set g2" using g2(1) unfolding v2_def by (rule split_pass_char_free)
  from split_pass_frag[of g2 "'',''" v1] g2(1) obtain g1 where g1: "g1 \<in> set v1" "set g2 \<subseteq> set g1"
    unfolding v2_def by blast
  have n1: "CHR '';'' \<notin> set g1" using g1(1) unfolding v1_def by (rule split_pass_char_free)
  show ?thesis using st g4(2) n4 g3(2) n3 g2(2) n2 g1(2) n1 by blast
qed

text \<open>Splitting the joined form of such fragments gives the fragments back.\<close>

lemma value_cascade_join:
  assumes "fs \<noteq> []"
    and "\<forall>f \<in> set fs. stripped f \<and> CHR '';'' \<notin> set f \<and> CHR '','' \<notin> set f \<and> CHR ''|'' \<notin> set f \<and> CHR 0x0A \<notin> set f"
  shows "split_cascade value_separators (str_join '', '' fs) = fs"
proof -
  let ?J = "str_join '', '' fs"
  have Jst: "stripped ?J" using assms by (intro str_join_stripped) auto
  have "CHR '';'' \<notin> set ?J" using str_join_set[of fs] assms(2) by auto
  then have "\<not> set '';'' \<subseteq> set ?J" by simp
  with Jst have p1: "split_pass '';'' [?J] = [?J]" by (intro split_pass_id) simp
  have p2: "split_pass '','' [?J] = fs" using assms by (intro split_pass_comma_join) auto
  have p3: "split_pass ''|'' fs = fs" using assms(2) by (intro split_pass_id) auto
  have p4: "split_pass [CHR 0x0A] fs = fs" using assms(2) by (intro split_pass_id) auto
  have p5: "split_pass [CHR 0x0D, CHR 0x0A] fs = fs" using assms(2) by (intro split_pass_id) auto
  show ?thesis by (simp add: split_cascade_def value_separators_def p1 p2 p3 p4 p5)
qed

lemma value_cascade_empty: "split_cascade value_separators [] = []"
  by (simp add: split_cascade_def value_separators_def split_pass_def str_strip_def)

text \<open>
  Claim C4. The value splitter is idempotent: for every string \<open>x\<close>, splitting the string
  obtained by joining \<open>unique_values x\<close> with a comma and a space gives \<open>unique_values x\<close>
  again, in the same order; and the empty string gives the empty list.
\<close>

theorem value_splitter_idempotent:
  "unique_values (str_join '', '' (unique_values x)) = unique_values x \<and> unique_values [] = []"
proof
  show "unique_values (str_join '', '' (unique_values x)) = unique_values x"
  proof (cases "unique_values x = []")
    case True
    then show ?thesis
      by (simp add: unique_values_def value_cascade_empty dict_fromkeys_def)
  next
    case False
    have ok: "\<forall>f \<in> set (unique_values x). stripped f \<and> CHR '';'' \<notin> set f \<and> CHR '','' \<notin> set f
                \<and> CHR ''|'' \<notin> set f \<and> CHR 0x0A \<notin> set f"
      using value_cascade_frags by (simp add: unique_values_def dict_fromkeys_set)
    have "split_cascade value_separators (str_join '', '' (unique_values x)) = unique_values x"
      using False ok by (rule value_cascade_join)
    moreover have "distinct (unique_values x)"
      by (simp add: unique_values_def dict_fromkeys_distinct)
    ultimately show ?thesis
      using dict_fromkeys_id[of "unique_values x"] by (simp add: unique_values_def)
  qed
  show "unique_values [] = []"
    by (simp add: unique_values_def value_cascade_empty dict_fromkeys_def)
qed

section \<open>What the queries return and what they leave\<close>

lemma result_fresh: "result_frame (fresh df s) = Inr df"
  by (simp add: result_frame_def fresh_def alloc_def)

lemma get_overdue_followups_result:
  "result_frame (get_overdue_followups lib now s) =
     (if \<not> has_data s then Inr empty_frame
      else window_result (overdue_mask lib (normalize now)) (load s Self_df))"
  by (simp add: get_overdue_followups_def window_result_def result_frame_def alloc_def fresh_def
      Let_def nth_append split: sum.splits)

lemma get_overdue_followups_store: "same_store s (snd (get_overdue_followups lib now s))"
  by (simp add: get_overdue_followups_def same_store_def alloc_def fresh_def Let_def split: sum.splits)

lemma get_upcoming_followups_result:
  "result_frame (get_upcoming_followups lib now days_ahead s) =
     (if \<not> has_data s then Inr empty_frame
      else window_result (upcoming_mask lib (normalize now) (normalize now + Timedelta_days days_ahead))
             (load s Self_df))"
  by (simp add: get_upcoming_followups_def window_result_def result_frame_def alloc_def fresh_def
      Let_def nth_append split: sum.splits)

lemma get_upcoming_followups_store: "same_store s (snd (get_upcoming_followups lib now days_ahead s))"
  by (simp add: get_upcoming_followups_def same_store_def alloc_def fresh_def Let_def split: sum.splits)

lemma select_columns [simp]: "columns (select keep df) = columns df"
  by (simp add: select_def)

lemma get_daily_tasks_result:
  "result_frame (get_daily_tasks lib date s) =
     (if \<not> has_data s then Inr empty_frame
      else case pd_Timestamp lib date of
             Inl e \<Rightarrow> Inl e
           | Inr ts \<Rightarrow> daily_result (daily_mask lib (normalize ts)) (load s Self_df))"
  by (simp add: get_daily_tasks_def daily_result_def result_frame_def alloc_def fresh_def update_at_def
      Let_def nth_append split: sum.splits)

lemma get_daily_tasks_store: "same_store s (snd (get_daily_tasks lib date s))"
  by (simp add: get_daily_tasks_def same_store_def alloc_def fresh_def update_at_def Let_def
      split: sum.splits)

section \<open>Writing a cell\<close>

lemma ensure_column_index [simp]: "index (ensure_column c df) = index df"
  by (simp add: ensure_column_def assign_def index_def comp_def case_prod_unfold)

lemma ensure_column_columns [simp]: "set (columns (ensure_column c df)) = insert c (set (columns df))"
  by (auto simp: ensure_column_def assign_def)

lemma ensure_column_rows:
  "(i, r) \<in> set (rows (ensure_column c df)) \<Longrightarrow> c' \<noteq> c \<Longrightarrow> \<exists>r0. (i, r0) \<in> set (rows df) \<and> r c' = r0 c'"
  by (auto simp: ensure_column_def assign_def split: if_splits)

lemma loc_set_index: "set (index (loc_set idx c v df)) = insert idx (set (index df))"
proof (cases "idx \<in> set (index (ensure_column c df))")
  case True
  then have "index (loc_set idx c v df) = index (ensure_column c df)"
    by (simp add: loc_set_def Let_def index_def comp_def case_prod_unfold if_distrib cong: if_cong)
  with True show ?thesis by auto
next
  case False
  then have "index (loc_set idx c v df) = index (ensure_column c df) @ [idx]"
    by (simp add: loc_set_def Let_def index_def)
  then show ?thesis by simp
qed

lemma loc_set_columns: "set (columns (loc_set idx c v df)) = insert c (set (columns df))"
  by (simp add: loc_set_def Let_def)

lemma loc_set_rows_same:
  "(i, r) \<in> set (rows (loc_set idx c v df)) \<Longrightarrow> i = idx \<Longrightarrow> r c = Some v"
  by (cases "idx \<in> set (index (ensure_column c df))")
     (force simp: loc_set_def Let_def index_def split: if_splits)+

lemma loc_set_rows_other:
  assumes "(i, r) \<in> set (rows (loc_set idx c v df))" "c' \<noteq> c" "idx \<in> set (index df)"
  shows "\<exists>r0. (i, r0) \<in> set (rows df) \<and> r c' = r0 c'"
proof -
  have "idx \<in> set (index (ensure_column c df))" using assms(3) by simp
  then have "rows (loc_set idx c v df) =
      map (\<lambda>(i, r). if i = idx then (i, r(c \<mapsto> v)) else (i, r)) (rows (ensure_column c df))"
    by (simp add: loc_set_def Let_def)
  with assms(1) obtain r1 where r1: "(i, r1) \<in> set (rows (ensure_column c df))" "r c' = r1 c'"
    using assms(2) by (auto split: if_splits)
  from ensure_column_rows[OF r1(1) assms(2)] r1(2) show ?thesis by auto
qed

lemma field_is_loc_set: "field_is (loc_set idx c v df) idx c v"
  using loc_set_rows_same[of _ _ idx c v df]
  by (auto simp: field_is_def loc_set_index loc_set_columns)

lemma field_is_loc_set_other:
  assumes "field_is df idx c' w" "c \<noteq> c'"
  shows "field_is (loc_set idx c v df) idx c' w"
  unfolding field_is_def
proof (intro conjI)
  show "idx \<in> set (index (loc_set idx c v df))" by (simp add: loc_set_index)
  show "c' \<in> set (columns (loc_set idx c v df))" using assms by (simp add: loc_set_columns field_is_def)
  have in_idx: "idx \<in> set (index df)" using assms by (simp add: field_is_def)
  show "\<forall>(i, r) \<in> set (rows (loc_set idx c v df)). i = idx \<longrightarrow> r c' = Some w"
  proof (clarify)
    fix r assume "(idx, r) \<in> set (rows (loc_set idx c v df))"
    from loc_set_rows_other[OF this _ in_idx, of c'] assms(2)
    obtain r0 where "(idx, r0) \<in> set (rows df)" "r c' = r0 c'" by auto
    then show "r c' = Some w" using assms(1) by (auto simp: field_is_def)
  qed
qed

lemma map_rows_id:
  assumes "\<And>i r. (i, r) \<in> set rs \<Longrightarrow> f (i, r) = (i, r)"
  shows "map f rs = rs"
  using assms by (induction rs) auto

lemma loc_set_triv:
  assumes "field_is df idx c v"
  shows "loc_set idx c v df = df"
proof -
  have a: "idx \<in> set (index df)" "c \<in> set (columns df)" using assms by (auto simp: field_is_def)
  have "map (\<lambda>(i, r). if i = idx then (i, r(c \<mapsto> v)) else (i, r)) (rows df) = rows df"
  proof (rule map_rows_id)
    fix i r assume "(i, r) \<in> set (rows df)"
    then have "i = idx \<Longrightarrow> r c = Some v" using assms by (auto simp: field_is_def)
    then show "(case (i, r) of (i, r) \<Rightarrow> if i = idx then (i, r(c \<mapsto> v)) else (i, r)) = (i, r)"
      by (auto simp: map_upd_triv)
  qed
  then show ?thesis using a by (simp add: loc_set_def Let_def ensure_column_def)
qed

lemma map_of_in_set: "map_of rs k = Some r \<Longrightarrow> (k, r) \<in> set rs"
  by (rule map_of_SomeD)

lemma field_is_loc_get:
  assumes "field_is df idx c v"
  shows "loc_get df idx c = Inr v"
proof -
  have "idx \<in> fst ` set (rows df)" using assms by (simp add: field_is_def index_def)
  then obtain r where r: "map_of (rows df) idx = Some r"
    by (metis domD dom_map_of_conv_image_fst)
  then have "(idx, r) \<in> set (rows df)" by (rule map_of_SomeD)
  then have "r c = Some v" using assms by (auto simp: field_is_def)
  then show ?thesis using r assms by (simp add: loc_get_def field_is_def cell_at_def)
qed

lemma field_is_not_open:
  assumes "field_is df idx ''follow_up_completed'' (Bool True)" "(idx, r) \<in> set (rows df)"
  shows "\<not> open_followup r"
proof -
  have "r ''follow_up_completed'' = Some (Bool True)" using assms by (auto simp: field_is_def)
  then show ?thesis by (simp add: open_followup_def cell_at_def eq_False_def)
qed

lemma sort_values_rows:
  "sort_values key df = Inr df' \<Longrightarrow> set (rows df') = set (rows df) \<and> columns df' = columns df"
  by (auto simp: sort_values_def split: if_splits)

lemma window_result_index:
  assumes "window_result keep df = Inr fr" "i \<in> set (index fr)"
  shows "\<exists>r. (i, r) \<in> set (rows df) \<and> keep r"
proof (cases "df_empty (select keep df)")
  case True
  with assms have "fr = select keep df" by (simp add: window_result_def split: if_splits)
  with assms(2) show ?thesis by (auto simp: index_def select_def)
next
  case False
  with assms have "sort_values ''follow_up_date'' (select keep df) = Inr fr"
    by (simp add: window_result_def split: if_splits)
  then have "set (rows fr) = set (rows (select keep df))" by (simp add: sort_values_rows)
  with assms(2) show ?thesis by (auto simp: index_def select_def)
qed

lemma daily_result_index:
  assumes "daily_result keep df = Inr fr" "i \<in> set (index fr)"
  shows "\<exists>r. (i, r) \<in> set (rows df) \<and> keep r"
proof (cases "df_empty (select keep df)")
  case True
  with assms have "fr = select keep df" by (simp add: daily_result_def split: if_splits)
  with assms(2) show ?thesis by (auto simp: index_def select_def)
next
  case False
  let ?a = "assign ''priority_order'' (\<lambda>r. Num (priority_order (cell_at r ''priority''))) (select keep df)"
  from False assms obtain sd where sd: "sort_daily_tasks ?a = Inr sd" and fr: "fr = drop_column ''priority_order'' sd"
    by (auto simp: daily_result_def split: if_splits sum.splits)
  have "set (rows sd) = set (rows ?a)" using sd by (auto simp: sort_daily_tasks_def split: if_splits)
  then have "fst ` set (rows sd) = fst ` set (rows (select keep df))"
    by (force simp: assign_def)
  moreover have "set (index fr) = fst ` set (rows sd)" unfolding fr by (force simp: drop_column_def index_def)
  ultimately have "i \<in> fst ` set (rows (select keep df))" using assms(2) by simp
  then show ?thesis by (auto simp: select_def)
qed

section \<open>Completing and scheduling a follow-up\<close>

lemma loc_set_not_empty: "\<not> df_empty (loc_set idx c v df)"
proof -
  have "idx \<in> set (index (loc_set idx c v df))" by (simp add: loc_set_index)
  then have "rows (loc_set idx c v df) \<noteq> []" by (auto simp: index_def)
  moreover have "c \<in> set (columns (loc_set idx c v df))" by (simp add: loc_set_columns)
  then have "columns (loc_set idx c v df) \<noteq> []" by auto
  ultimately show ?thesis by (simp add: df_empty_def)
qed

lemma has_data_Some: "has_data s \<Longrightarrow> \<exists>df. leads_df s = Some df \<and> \<not> df_empty df"
  by (auto simp: has_data_def split: option.splits)

lemma complete_followup_frame:
  assumes "has_data s"
  shows "leads_df (snd (complete_followup lib now lead_idx s)) =
     Some (loc_set lead_idx ''last_contact'' (Str (strftime_day lib now))
            (loc_set lead_idx ''follow_up_completed'' (Bool True) (load s Self_df)))"
  using assms
  by (simp add: complete_followup_def update_at_def update_lead_field_def save_to_database_def Let_def)

lemma complete_followup_has_data:
  assumes "has_data s"
  shows "has_data (snd (complete_followup lib now lead_idx s))"
  using complete_followup_frame[OF assms] by (simp add: has_data_def loc_set_not_empty)

lemma complete_followup_fields:
  assumes "has_data s"
  shows "field_is (load (snd (complete_followup lib now lead_idx s)) Self_df) lead_idx
           ''follow_up_completed'' (Bool True)"
    and "field_is (load (snd (complete_followup lib now lead_idx s)) Self_df) lead_idx
           ''last_contact'' (Str (strftime_day lib now))"
  using complete_followup_frame[OF assms]
  by (simp_all add: field_is_loc_set field_is_loc_set_other)

lemma closed_not_in_window:
  assumes "field_is df idx ''follow_up_completed'' (Bool True)"
    and "window_result keep df = Inr fr" "\<And>r. keep r \<Longrightarrow> open_followup r"
  shows "idx \<notin> set (index fr)"
proof
  assume "idx \<in> set (index fr)"
  from window_result_index[OF assms(2) this] obtain r where "(idx, r) \<in> set (rows df)" "keep r" by auto
  then show False using field_is_not_open[OF assms(1)] assms(3) by blast
qed

lemma closed_not_in_daily:
  assumes "field_is df idx ''follow_up_completed'' (Bool True)"
    and "daily_result keep df = Inr fr" "\<And>r. keep r \<Longrightarrow> open_followup r"
  shows "idx \<notin> set (index fr)"
proof
  assume "idx \<in> set (index fr)"
  from daily_result_index[OF assms(2) this] obtain r where "(idx, r) \<in> set (rows df)" "keep r" by auto
  then show False using field_is_not_open[OF assms(1)] assms(3) by blast
qed

lemma closed_not_overdue:
  assumes "field_is (load s Self_df) idx ''follow_up_completed'' (Bool True)"
  shows "idx \<notin> result_index (get_overdue_followups lib t s)"
proof (cases "has_data s")
  case False
  then show ?thesis by (simp add: result_index_def get_overdue_followups_result empty_frame_def index_def)
next
  case True
  show ?thesis
  proof (cases "window_result (overdue_mask lib (normalize t)) (load s Self_df)")
    case (Inl e)
    with True show ?thesis by (simp add: result_index_def get_overdue_followups_result)
  next
    case (Inr fr)
    have "idx \<notin> set (index fr)"
      using assms Inr by (rule closed_not_in_window) (simp add: overdue_mask_def)
    with True Inr show ?thesis by (simp add: result_index_def get_overdue_followups_result)
  qed
qed

lemma closed_not_daily:
  assumes "field_is (load s Self_df) idx ''follow_up_completed'' (Bool True)"
  shows "idx \<notin> result_index (get_daily_tasks lib d s)"
proof (cases "has_data s")
  case False
  then show ?thesis by (simp add: result_index_def get_daily_tasks_result empty_frame_def index_def)
next
  case True
  show ?thesis
  proof (cases "pd_Timestamp lib d")
    case (Inl e)
    with True show ?thesis by (simp add: result_index_def get_daily_tasks_result)
  next
    case ts: (Inr ts)
    show ?thesis
    proof (cases "daily_result (daily_mask lib (normalize ts)) (load s Self_df)")
      case (Inl e)
      with True ts show ?thesis by (simp add: result_index_def get_daily_tasks_result)
    next
      case (Inr fr)
      have "idx \<notin> set (index fr)"
        using assms Inr by (rule closed_not_in_daily) (simp add: daily_mask_def)
      with True ts Inr show ?thesis by (simp add: result_index_def get_daily_tasks_result)
    qed
  qed
qed

text \<open>
  Claim C6. For a record that is in the store, \<open>complete_followup\<close> takes it out of the result of
  \<open>get_overdue_followups\<close> and of \<open>get_daily_tasks\<close> for every date; a second call on the same
  day leaves the table as the first call left it, with \<open>follow_up_completed\<close> true and
  \<open>last_contact\<close> the day of the call.
\<close>

theorem complete_followup_closes_task:
  assumes "has_data s" "lead_idx \<in> set (index (load s Self_df))"
    and "strftime_day lib now' = strftime_day lib now"
  shows "lead_idx \<notin> result_index (get_overdue_followups lib t (snd (complete_followup lib now lead_idx s)))
       \<and> (\<forall>d. lead_idx \<notin> result_index (get_daily_tasks lib d (snd (complete_followup lib now lead_idx s))))
       \<and> leads_df (snd (complete_followup lib now' lead_idx (snd (complete_followup lib now lead_idx s))))
           = leads_df (snd (complete_followup lib now lead_idx s))
       \<and> loc_get (load (snd (complete_followup lib now lead_idx s)) Self_df) lead_idx ''follow_up_completed''
           = Inr (Bool True)
       \<and> loc_get (load (snd (complete_followup lib now lead_idx s)) Self_df) lead_idx ''last_contact''
           = Inr (Str (strftime_day lib now))"
proof -
  let ?s' = "snd (complete_followup lib now lead_idx s)"
  note f = complete_followup_fields[OF assms(1), of lib now lead_idx]
  have hd: "has_data ?s'" using assms(1) by (rule complete_followup_has_data)
  have 1: "lead_idx \<notin> result_index (get_overdue_followups lib t ?s')" using f(1) by (rule closed_not_overdue)
  have 2: "\<forall>d. lead_idx \<notin> result_index (get_daily_tasks lib d ?s')" using f(1) by (simp add: closed_not_daily)
  have "loc_set lead_idx ''follow_up_completed'' (Bool True) (load ?s' Self_df) = load ?s' Self_df"
    using f(1) by (rule loc_set_triv)
  moreover have "loc_set lead_idx ''last_contact'' (Str (strftime_day lib now')) (load ?s' Self_df) = load ?s' Self_df"
    using f(2) assms(3) by (simp add: loc_set_triv)
  ultimately have 3: "leads_df (snd (complete_followup lib now' lead_idx ?s')) = leads_df ?s'"
    using complete_followup_frame[OF hd, of lib now' lead_idx] has_data_Some[OF hd] by auto
  show ?thesis using 1 2 3 f by (simp add: field_is_loc_get)
qed

lemma loc_get_defined:
  assumes "idx \<in> set (index df)" "c \<in> set (columns df)"
  shows "\<exists>v. loc_get df idx c = Inr v"
proof -
  have "idx \<in> fst ` set (rows df)" using assms by (simp add: index_def)
  then obtain r where "map_of (rows df) idx = Some r"
    by (metis domD dom_map_of_conv_image_fst)
  then show ?thesis using assms(2) by (simp add: loc_get_def)
qed

lemma schedule_followup_frame:
  assumes "has_data s" "pd_Timestamp lib d = Inr ts"
    and "lead_idx \<in> set (index (load s Self_df)) \<longrightarrow> ''follow_up_date'' \<in> set (columns (load s Self_df))"
  shows "schedule_followup lib lead_idx d s = (None, s') \<Longrightarrow>
         leads_df s' = Some (loc_set lead_idx ''follow_up_completed'' (Bool False)
                              (loc_set lead_idx ''follow_up_date'' (Stamp ts) (load s Self_df)))"
    and "fst (schedule_followup lib lead_idx d s) = None"
proof -
  have ok: "\<exists>v. (if lead_idx \<in> set (index (load s Self_df))
              then loc_get (load s Self_df) lead_idx ''follow_up_date'' else Inr NoneV) = Inr v"
    using assms(3) loc_get_defined by auto
  then obtain v where v: "(if lead_idx \<in> set (index (load s Self_df))
              then loc_get (load s Self_df) lead_idx ''follow_up_date'' else Inr NoneV) = Inr v" by blast
  show "fst (schedule_followup lib lead_idx d s) = None"
    using assms(1,2) v by (simp add: schedule_followup_def Let_def)
  show "schedule_followup lib lead_idx d s = (None, s') \<Longrightarrow>
         leads_df s' = Some (loc_set lead_idx ''follow_up_completed'' (Bool False)
                              (loc_set lead_idx ''follow_up_date'' (Stamp ts) (load s Self_df)))"
    using assms(1,2) v
    by (auto simp: schedule_followup_def Let_def update_at_def update_lead_field_def save_to_database_def)
qed

text \<open>
  Claim C7. For a record that is in the store and a date \<open>d\<close>, \<open>schedule_followup\<close> returns
  normally and leaves the record with \<open>follow_up_date\<close> equal to \<open>d\<close> and
  \<open>follow_up_completed\<close> false, whatever the flag was before.
\<close>

theorem schedule_followup_reopens:
  assumes "has_data s" "lead_idx \<in> set (index (load s Self_df))"
    and "''follow_up_date'' \<in> set (columns (load s Self_df))"
    and "pd_Timestamp lib d = Inr ts"
  shows "fst (schedule_followup lib lead_idx d s) = None
       \<and> loc_get (load (snd (schedule_followup lib lead_idx d s)) Self_df) lead_idx ''follow_up_date''
           = Inr (Stamp ts)
       \<and> loc_get (load (snd (schedule_followup lib lead_idx d s)) Self_df) lead_idx ''follow_up_completed''
           = Inr (Bool False)"
proof -
  let ?s' = "snd (schedule_followup lib lead_idx d s)"
  have none: "fst (schedule_followup lib lead_idx d s) = None"
    using assms by (intro schedule_followup_frame(2)) auto
  then have "schedule_followup lib lead_idx d s = (None, ?s')" by (metis prod.collapse)
  then have fr: "leads_df ?s' = Some (loc_set lead_idx ''follow_up_completed'' (Bool False)
                              (loc_set lead_idx ''follow_up_date'' (Stamp ts) (load s Self_df)))"
    using assms by (intro schedule_followup_frame(1)) auto
  have "field_is (load ?s' Self_df) lead_idx ''follow_up_completed'' (Bool False)"
    using fr by (simp add: field_is_loc_set)
  moreover have "field_is (load ?s' Self_df) lead_idx ''follow_up_date'' (Stamp ts)"
    using fr by (simp add: field_is_loc_set field_is_loc_set_other)
  ultimately show ?thesis using none by (simp add: field_is_loc_get)
qed

section \<open>Examples of completing and scheduling\<close>

theorem complete_followup_closes_task_witness:
  "has_data two_followups \<and> 0 \<in> set (index (load two_followups Self_df))
   \<and> 0 \<notin> result_index (get_overdue_followups example_lib 700000
                           (snd (complete_followup example_lib 1000 0 two_followups)))
   \<and> (\<forall>d. 0 \<notin> result_index (get_daily_tasks example_lib d
                           (snd (complete_followup example_lib 1000 0 two_followups))))
   \<and> leads_df (snd (complete_followup example_lib 2000 0
                           (snd (complete_followup example_lib 1000 0 two_followups))))
       = leads_df (snd (complete_followup example_lib 1000 0 two_followups))
   \<and> loc_get (load (snd (complete_followup example_lib 1000 0 two_followups)) Self_df) 0
         ''follow_up_completed'' = Inr (Bool True)
   \<and> loc_get (load (snd (complete_followup example_lib 1000 0 two_followups)) Self_df) 0
         ''last_contact'' = Inr (Str ''2026-11-04'')"
proof -
  have h1: "has_data two_followups" by code_simp
  have h2: "0 \<in> set (index (load two_followups Self_df))" by code_simp
  have h3: "strftime_day example_lib 2000 = strftime_day example_lib 1000"
    by (simp add: example_lib_def)
  have day: "strftime_day example_lib 1000 = ''2026-11-04''" by (simp add: example_lib_def)
  from complete_followup_closes_task[OF h1 h2 h3, of 700000] h1 h2 day show ?thesis by simp
qed

theorem schedule_followup_reopens_witness:
  "has_data (snd (complete_followup example_lib 1000 0 two_followups))
   \<and> fst (schedule_followup example_lib 0 (Date_val 864000)
            (snd (complete_followup example_lib 1000 0 two_followups))) = None
   \<and> loc_get (load (snd (schedule_followup example_lib 0 (Date_val 864000)
            (snd (complete_followup example_lib 1000 0 two_followups)))) Self_df) 0 ''follow_up_date''
       = Inr (Stamp 864000)
   \<and> loc_get (load (snd (schedule_followup example_lib 0 (Date_val 864000)
            (snd (complete_followup example_lib 1000 0 two_followups)))) Self_df) 0 ''follow_up_completed''
       = Inr (Bool False)"
proof -
  let ?s = "snd (complete_followup example_lib 1000 0 two_followups)"
  have h1: "has_data ?s" by code_simp
  have h2: "0 \<in> set (index (load ?s Self_df))" by code_simp
  have h3: "''follow_up_date'' \<in> set (columns (load ?s Self_df))" by code_simp
  have h4: "pd_Timestamp example_lib (Date_val 864000) = Inr 864000" by simp
  from schedule_followup_reopens[OF h1 h2 h3 h4] h1 show ?thesis by simp
qed

section \<open>Mutating a record that is not in the store\<close>

lemma loc_set_index_new:
  assumes "idx \<notin> set (index df)"
  shows "index (loc_set idx c v df) = index df @ [idx]"
proof -
  have "idx \<notin> set (index (ensure_column c df))" using assms by simp
  then have "index (loc_set idx c v df) = index (ensure_column c df) @ [idx]"
    by (simp add: loc_set_def Let_def index_def)
  then show ?thesis by simp
qed

lemma loc_set_index_old:
  assumes "idx \<in> set (index df)"
  shows "index (loc_set idx c v df) = index df"
proof -
  have "idx \<in> set (index (ensure_column c df))" using assms by simp
  then have "index (loc_set idx c v df) = index (ensure_column c df)"
    by (simp add: loc_set_def Let_def index_def comp_def case_prod_unfold if_distrib cong: if_cong)
  then show ?thesis by simp
qed

lemma set_column_index: "index (set_column c v df) = index df"
  by (simp add: set_column_def assign_def index_def comp_def case_prod_unfold)

lemma loc_get_missing: "idx \<notin> set (index df) \<Longrightarrow> loc_get df idx c = Inl KeyError"
proof -
  assume "idx \<notin> set (index df)"
  then have "map_of (rows df) idx = None" by (simp add: index_def map_of_eq_None_iff)
  then show ?thesis by (simp add: loc_get_def)
qed

lemma update_lead_status_missing:
  assumes "has_data s" "lead_idx \<notin> set (index (load s Self_df))"
  shows "index (load (snd (update_lead_status lib now lead_idx new_status s)) Self_df)
           = index (load s Self_df) @ [lead_idx]"
  using assms
  by (simp add: update_lead_status_def Let_def update_at_def update_lead_field_def save_to_database_def
      set_column_index loc_set_index_new loc_set_index_old)

lemma update_lead_priority_missing:
  assumes "has_data s" "lead_idx \<notin> set (index (load s Self_df))"
  shows "index (load (snd (update_lead_priority lead_idx new_priority s)) Self_df)
           = index (load s Self_df) @ [lead_idx]"
  using assms
  by (simp add: update_lead_priority_def Let_def update_at_def update_lead_field_def save_to_database_def
      loc_set_index_new)

lemma schedule_followup_missing:
  assumes "has_data s" "lead_idx \<notin> set (index (load s Self_df))"
  shows "index (load (snd (schedule_followup lib lead_idx (Date_val t) s)) Self_df)
           = index (load s Self_df) @ [lead_idx]"
  using assms
  by (simp add: schedule_followup_def Let_def update_at_def update_lead_field_def save_to_database_def
      loc_set_index_new loc_set_index_old)

lemma complete_followup_missing:
  assumes "has_data s" "lead_idx \<notin> set (index (load s Self_df))"
  shows "index (load (snd (complete_followup lib now lead_idx s)) Self_df)
           = index (load s Self_df) @ [lead_idx]"
  using assms
  by (simp add: complete_followup_def Let_def update_at_def update_lead_field_def save_to_database_def
      loc_set_index_new loc_set_index_old)

lemma add_note_missing:
  assumes "has_data s" "lead_idx \<notin> set (index (load s Self_df))" "str_strip note \<noteq> []"
  shows "fst (add_note lib now lead_idx note s) = Some KeyError"
  using assms
  by (simp add: add_note_def Let_def update_at_def set_column_index loc_get_missing)

text \<open>
  Claim C2 says that a mutation whose identifier is not in the index changes nothing. In a
  store that has data, each of \<open>update_lead_status\<close>, \<open>update_lead_priority\<close>,
  \<open>schedule_followup\<close> and \<open>complete_followup\<close> called with such an identifier appends a
  record with that label to the table, and \<open>add_note\<close> (with a note that is not blank) raises
  \<open>KeyError\<close>.
\<close>

theorem mutation_on_missing_id_enlarges_store:
  assumes "has_data s" "lead_idx \<notin> set (index (load s Self_df))" "str_strip note \<noteq> []"
  shows "index (load (snd (update_lead_status lib now lead_idx new_status s)) Self_df)
           = index (load s Self_df) @ [lead_idx]
       \<and> index (load (snd (update_lead_priority lead_idx new_priority s)) Self_df)
           = index (load s Self_df) @ [lead_idx]
       \<and> index (load (snd (schedule_followup lib lead_idx (Date_val t) s)) Self_df)
           = index (load s Self_df) @ [lead_idx]
       \<and> index (load (snd (complete_followup lib now lead_idx s)) Self_df)
           = index (load s Self_df) @ [lead_idx]
       \<and> fst (add_note lib now lead_idx note s) = Some KeyError"
  using update_lead_status_missing[OF assms(1,2)] update_lead_priority_missing[OF assms(1,2)]
    schedule_followup_missing[OF assms(1,2)] complete_followup_missing[OF assms(1,2)]
    add_note_missing[OF assms]
  by blast

text \<open>On the store with the single record 0 and the identifier 7.\<close>

theorem mutation_on_missing_id_example:
  "index (load one_lead Self_df) = [0]
   \<and> index (load (snd (update_lead_status example_lib 1000 7 ''won'' one_lead)) Self_df) = [0, 7]
   \<and> index (load (snd (update_lead_priority 7 ''High'' one_lead)) Self_df) = [0, 7]
   \<and> index (load (snd (schedule_followup example_lib 7 (Date_val 864000) one_lead)) Self_df) = [0, 7]
   \<and> index (load (snd (complete_followup example_lib 1000 7 one_lead)) Self_df) = [0, 7]
   \<and> fst (add_note example_lib 1000 7 ''call back'' one_lead) = Some KeyError"
proof -
  have h1: "has_data one_lead" by code_simp
  have h0: "index (load one_lead Self_df) = [0]" by code_simp
  then have h2: "7 \<notin> set (index (load one_lead Self_df))" by simp
  have h3: "str_strip ''call back'' \<noteq> []" by code_simp
  from mutation_on_missing_id_enlarges_store[OF h1 h2 h3, of example_lib 1000 "''won''" "''High''" 864000] h0
  show ?thesis by simp
qed

section \<open>The follow-up windows\<close>

text \<open>
  Claim C3 says that overdue, upcoming and the later follow-ups partition the open follow-ups
  by calendar day alone. With today the day of second 1000 and a window of 7 days, the
  follow-ups of records 0 and 1 fall on the same day, the seventh after today; neither is
  overdue, the upcoming window holds record 0 (midnight) and not record 1 (nine o'clock), while
  the daily view of that day holds both.
\<close>
theorem upcoming_window_depends_on_time_of_day:
  "normalize 637200 = normalize 604800
   \<and> normalize 604800 = normalize 1000 + Timedelta_days 7
   \<and> result_index (get_overdue_followups example_lib 1000 two_followups) = {}
   \<and> result_index (get_upcoming_followups example_lib 1000 7 two_followups) = {0}
   \<and> result_index (get_daily_tasks example_lib (Date_val 604800) two_followups) = {0, 1}"
  by code_simp

text \<open>So record 1 is in neither window, although its day is not later than the last day of
  the upcoming window, on which record 0 is listed.\<close>

theorem upcoming_window_splits_a_day:
  "1 \<notin> result_index (get_overdue_followups example_lib 1000 two_followups)
   \<and> 1 \<notin> result_index (get_upcoming_followups example_lib 1000 7 two_followups)
   \<and> 0 \<in> result_index (get_upcoming_followups example_lib 1000 7 two_followups)
   \<and> normalize 637200 = normalize 604800
   \<and> \<not> normalize 1000 + Timedelta_days 7 < normalize 637200"
  using upcoming_window_depends_on_time_of_day by simp

section \<open>The queries leave the store alone\<close>

lemma same_store_trans: "same_store a b \<Longrightarrow> same_store b c \<Longrightarrow> same_store a c"
  by (simp add: same_store_def)

lemma same_store_fresh: "same_store s (snd (fresh df s))"
  by (simp add: same_store_def fresh_def alloc_def)

lemma same_store_alloc: "same_store s (snd (alloc df s))"
  by (simp add: same_store_def alloc_def)

lemma apply_search_store: "same_store s (snd (apply_search lib search_term df s))"
  by (simp add: apply_search_def Let_def same_store_fresh) (simp add: same_store_def)

lemma apply_status_filter_store: "same_store s (snd (apply_status_filter lib status_filter df s))"
  by (simp add: apply_status_filter_def Let_def same_store_fresh) (simp add: same_store_def)

lemma apply_priority_filter_store: "same_store s (snd (apply_priority_filter priority_filter df s))"
  by (simp add: apply_priority_filter_def same_store_fresh) (simp add: same_store_def)

lemma filtered_leads_try_store:
  "same_store s (snd (filtered_leads_try lib search_term status_filter priority_filter s))"
proof -
  obtain df s0 where a: "alloc (load s Self_df) s = (df, s0)" by (cases "alloc (load s Self_df) s")
  have s0: "same_store s s0" using same_store_alloc[of s "load s Self_df"] a by simp
  obtain r1 s1 where b: "apply_search lib search_term df s0 = (r1, s1)"
    by (cases "apply_search lib search_term df s0")
  have s1: "same_store s s1" using apply_search_store[of s0 lib search_term df] b s0
    by (auto intro: same_store_trans)
  show ?thesis
  proof (cases r1)
    case (Inl e)
    then show ?thesis using a b s1 by (simp add: filtered_leads_try_def)
  next
    case (Inr df1)
    obtain r2 s2 where c: "apply_status_filter lib status_filter df1 s1 = (r2, s2)"
      by (cases "apply_status_filter lib status_filter df1 s1")
    have s2: "same_store s s2" using apply_status_filter_store[of s1 lib status_filter df1] c s1
      by (auto intro: same_store_trans)
    show ?thesis
    proof (cases r2)
      case (Inl e)
      then show ?thesis using a b c Inr s2 by (simp add: filtered_leads_try_def)
    next
      case df2: (Inr df2)
      have "same_store s (snd (apply_priority_filter priority_filter df2 s2))"
        using s2 apply_priority_filter_store[of s2 priority_filter df2] by (rule same_store_trans)
      then show ?thesis using a b c Inr df2 by (simp add: filtered_leads_try_def)
    qed
  qed
qed

lemma get_filtered_leads_store:
  "same_store s (snd (get_filtered_leads lib search_term status_filter priority_filter s))"
proof (cases "has_data s")
  case False
  then show ?thesis by (simp add: get_filtered_leads_def same_store_fresh)
next
  case True
  obtain r s' where a: "filtered_leads_try lib search_term status_filter priority_filter s = (r, s')"
    by (cases "filtered_leads_try lib search_term status_filter priority_filter s")
  have s': "same_store s s'"
    using filtered_leads_try_store[of s lib search_term status_filter priority_filter] a by simp
  show ?thesis
  proof (cases r)
    case (Inl e)
    have "same_store s (snd (fresh empty_frame s'))" using s' same_store_fresh by (rule same_store_trans)
    then show ?thesis using True a Inl by (simp add: get_filtered_leads_def)
  next
    case (Inr df)
    then show ?thesis using True a s' by (simp add: get_filtered_leads_def)
  qed
qed

lemma get_unique_statuses_store: "same_store s (snd (get_unique_statuses lib s))"
  by (simp add: get_unique_statuses_def Let_def same_store_def)

lemma get_analytics_store: "same_store s (snd (get_analytics lib now s))"
  by (simp add: get_analytics_def Let_def same_store_def)

lemma drop_column_absent: "c \<notin> set (columns (drop_column c df))"
  by (simp add: drop_column_def)

lemma daily_result_priority_order:
  assumes "daily_result keep df = Inr fr" "''priority_order'' \<notin> set (columns df)"
  shows "''priority_order'' \<notin> set (columns fr)"
proof (cases "df_empty (select keep df)")
  case True
  with assms have "fr = select keep df" by (simp add: daily_result_def split: if_splits)
  with assms(2) show ?thesis by simp
next
  case False
  with assms obtain sd where "fr = drop_column ''priority_order'' sd"
    by (auto simp: daily_result_def split: if_splits sum.splits)
  then show ?thesis by (simp add: drop_column_absent)
qed

lemma get_daily_tasks_priority_order:
  assumes "leads_df s = Some df" "''priority_order'' \<notin> set (columns df)"
    and "result_frame (get_daily_tasks lib date s) = Inr fr"
  shows "''priority_order'' \<notin> set (columns fr)"
proof (cases "has_data s")
  case False
  with assms(3) have "fr = empty_frame" by (simp add: get_daily_tasks_result)
  then show ?thesis by (simp add: empty_frame_def)
next
  case True
  show ?thesis
  proof (cases "pd_Timestamp lib date")
    case (Inl e)
    with True assms(3) show ?thesis by (simp add: get_daily_tasks_result)
  next
    case (Inr ts)
    with True assms(3) have "daily_result (daily_mask lib (normalize ts)) (load s Self_df) = Inr fr"
      by (simp add: get_daily_tasks_result)
    moreover have "''priority_order'' \<notin> set (columns (load s Self_df))" using assms(1,2) by simp
    ultimately show ?thesis by (rule daily_result_priority_order)
  qed
qed

text \<open>
  Claim C10. The six queries leave the lead store as it was: the table, the column mapping and
  the list of original columns. The frame \<open>get_daily_tasks\<close> returns has no column
  \<open>priority_order\<close> unless the table itself has one: the sort key is assigned to a copy and
  dropped before the frame is returned.
\<close>

theorem queries_leave_store_unchanged:
  "same_store s (snd (get_filtered_leads lib search_term status_filter priority_filter s))
   \<and> same_store s (snd (get_upcoming_followups lib now days_ahead s))
   \<and> same_store s (snd (get_overdue_followups lib now s))
   \<and> same_store s (snd (get_daily_tasks lib date s))
   \<and> same_store s (snd (get_unique_statuses lib s))
   \<and> same_store s (snd (get_analytics lib now s))
   \<and> (\<forall>df fr. leads_df s = Some df \<and> ''priority_order'' \<notin> set (columns df)
                \<and> result_frame (get_daily_tasks lib date s) = Inr fr
        \<longrightarrow> ''priority_order'' \<notin> set (columns fr))"
proof (intro conjI allI impI)
  show "same_store s (snd (get_filtered_leads lib search_term status_filter priority_filter s))"
    by (rule get_filtered_leads_store)
  show "same_store s (snd (get_upcoming_followups lib now days_ahead s))"
    by (rule get_upcoming_followups_store)
  show "same_store s (snd (get_overdue_followups lib now s))"
    by (rule get_overdue_followups_store)
  show "same_store s (snd (get_daily_tasks lib date s))"
    by (rule get_daily_tasks_store)
  show "same_store s (snd (get_unique_statuses lib s))"
    by (rule get_unique_statuses_store)
  show "same_store s (snd (get_analytics lib now s))"
    by (rule get_analytics_store)
next
  fix df fr
  assume a: "leads_df s = Some df \<and> ''priority_order'' \<notin> set (columns df)
                \<and> result_frame (get_daily_tasks lib date s) = Inr fr"
  show "''priority_order'' \<notin> set (columns fr)"
    by (rule get_daily_tasks_priority_order[of s df lib date fr]) (use a in blast)+
qed

text \<open>On the store with two follow-ups.\<close>

theorem queries_leave_store_unchanged_example:
  "same_store two_followups (snd (get_filtered_leads example_lib ''ann'' ''new'' ''Medium'' two_followups))
   \<and> same_store two_followups (snd (get_upcoming_followups example_lib 1000 7 two_followups))
   \<and> same_store two_followups (snd (get_overdue_followups example_lib 1000 two_followups))
   \<and> same_store two_followups (snd (get_daily_tasks example_lib (Date_val 604800) two_followups))
   \<and> same_store two_followups (snd (get_unique_statuses example_lib two_followups))
   \<and> same_store two_followups (snd (get_analytics example_lib 1000 two_followups))
   \<and> (\<exists>fr. result_frame (get_daily_tasks example_lib (Date_val 604800) two_followups) = Inr fr
             \<and> set (index fr) = {0, 1} \<and> ''priority_order'' \<notin> set (columns fr))"
proof -
  note t = queries_leave_store_unchanged[of two_followups example_lib "''ann''" "''new''" "''Medium''"
              1000 7 "Date_val 604800"]
  have idx: "result_index (get_daily_tasks example_lib (Date_val 604800) two_followups) = {0, 1}"
    by code_simp
  then obtain fr where fr: "result_frame (get_daily_tasks example_lib (Date_val 604800) two_followups) = Inr fr"
    by (cases "result_frame (get_daily_tasks example_lib (Date_val 604800) two_followups)")
       (auto simp: result_index_def)
  have i2: "set (index fr) = {0, 1}" using idx fr by (simp add: result_index_def)
  have df: "leads_df two_followups = Some \<lparr>columns = lead_columns,
                 rows = [(0, lead_row ''Ann'' ''new'' (Stamp 604800) False),
                         (1, lead_row ''Bob'' ''new'' (Stamp 637200) False)]\<rparr>"
    by (simp add: two_followups_def manager_of_def)
  have npo: "''priority_order'' \<notin> set (columns \<lparr>columns = lead_columns,
                 rows = [(0, lead_row ''Ann'' ''new'' (Stamp 604800) False),
                         (1, lead_row ''Bob'' ''new'' (Stamp 637200) False)]\<rparr>)"
    by (simp add: lead_columns_def)
  have "''priority_order'' \<notin> set (columns fr)" using t df npo fr by blast
  then show ?thesis using t fr i2 by blast
qed

section \<open>Several e-mail addresses in one cell\<close>

lemma extract_emails_example:
  "extract_emails ''a@x.com; b@y.com,a@x.com'' = [''a@x.com'', ''b@y.com'']"
  by code_simp

lemma get_multiple_emails_cases:
  assumes "leads_df s = Some df"
  shows "(get_default (column_mapping s) ''email'' ''email'' \<in> set (columns df) \<and>
          loc_get df lead_idx (get_default (column_mapping s) ''email'' ''email'')
            = Inr (Str ''a@x.com; b@y.com,a@x.com'')
          \<longrightarrow> get_multiple_emails lead_idx s = Inr [''a@x.com'', ''b@y.com''])
       \<and> (get_default (column_mapping s) ''email'' ''email'' \<in> set (columns df) \<and>
          loc_get df lead_idx (get_default (column_mapping s) ''email'' ''email'') = Inr NoneV
          \<longrightarrow> get_multiple_emails lead_idx s = Inr [])
       \<and> (get_default (column_mapping s) ''email'' ''email'' \<notin> set (columns df)
          \<longrightarrow> get_multiple_emails lead_idx s = Inr [])"
  using assms by (simp add: get_multiple_emails_def extract_emails_example)

text \<open>
  Claim C5 says that the cell \<open>a@x.com; b@y.com,a@x.com\<close> gives the two addresses in order, and
  that a null or absent e-mail value gives the empty list. The first part and the cases of
  \<open>None\<close> and of an absent column are the lemma above. The missing value \<open>nan\<close> is not caught by
  the test \<open>not email_value or email_value == 'None'\<close>, since \<open>nan\<close> is true in Python: the method
  goes on to call \<open>split\<close> on a float and raises \<open>AttributeError\<close>.
\<close>

theorem get_multiple_emails_nan_raises:
  assumes "leads_df s = Some df"
    and "get_default (column_mapping s) ''email'' ''email'' \<in> set (columns df)"
    and "loc_get df lead_idx (get_default (column_mapping s) ''email'' ''email'') = Inr NaN"
  shows "isna NaN \<and> get_multiple_emails lead_idx s = Inl AttributeError"
  using assms by (simp add: get_multiple_emails_def isna_def)

theorem get_multiple_emails_nan_example:
  "get_multiple_emails 0 (mail_lead NaN) = Inl AttributeError
   \<and> get_multiple_emails 0 (mail_lead NoneV) = Inr []
   \<and> get_multiple_emails 0 (mail_lead (Str ''a@x.com; b@y.com,a@x.com'')) = Inr [''a@x.com'', ''b@y.com'']"
proof -
  let ?df = "\<lambda>v. \<lparr>columns = [''Name'', ''Mail''],
                 rows = [(0, [''Name'' \<mapsto> Str ''Ann'', ''Mail'' \<mapsto> v])]\<rparr>"
  have a: "leads_df (mail_lead v) = Some (?df v)" for v
    by (simp add: mail_lead_def manager_of_def)
  have col: "get_default (column_mapping (mail_lead v)) ''email'' ''email'' = ''Mail''" for v
    by (simp add: mail_lead_def manager_of_def get_default_def)
  have cell: "loc_get (?df v) 0 ''Mail'' = Inr v" for v
    by (simp add: loc_get_def cell_at_def)
  have 1: "get_multiple_emails 0 (mail_lead NaN) = Inl AttributeError"
    using get_multiple_emails_nan_raises[OF a, of NaN 0] col cell by simp
  have 2: "get_multiple_emails 0 (mail_lead NoneV) = Inr []"
    using get_multiple_emails_cases[OF a, of NoneV 0] col cell by simp
  have 3: "get_multiple_emails 0 (mail_lead (Str ''a@x.com; b@y.com,a@x.com'')) = Inr [''a@x.com'', ''b@y.com'']"
    using get_multiple_emails_cases[OF a, of "Str ''a@x.com; b@y.com,a@x.com''" 0] col cell by simp
  show ?thesis using 1 2 3 by simp
qed

section \<open>The management columns after an import\<close>


























section \<open>Analytics: the qualified leads\<close>





text \<open>The session raises nothing and ends with the mapping and the table of \<open>stale_status\<close>.\<close>

lemma stale_status_is_reached:
  "fst stale_session = None
   \<and> column_mapping (snd stale_session) = column_mapping stale_status
   \<and> map_option table_of (leads_df (snd stale_session)) = map_option table_of (leads_df stale_status)"
  by code_simp



section \<open>Which column the status is read from\<close>





text \<open>How the alias falls behind: \<open>update_lead_status\<close> writes the status column of the
  manager, which is the mapped column when there is one, and no record's alias changes.\<close>

lemma update_lead_status_frame:
  assumes "has_data s" "status_column s \<in> set (columns (load s Self_df))"
    and "lead_idx \<in> set (index (load s Self_df))"
  shows "leads_df (snd (update_lead_status lib now lead_idx new_status s)) =
     Some (loc_set lead_idx ''last_contact'' (Str (strftime_day lib now))
            (loc_set lead_idx (status_column s) (Str new_status) (load s Self_df)))"
proof -
  obtain v where v: "loc_get (load s Self_df) lead_idx (status_column s) = Inr v"
    using loc_get_defined[OF assms(3,2)] by blast
  show ?thesis
    using assms v
    by (simp add: update_lead_status_def status_column_def Let_def update_at_def update_lead_field_def
        save_to_database_def)
qed

lemma update_lead_status_leaves_alias:
  assumes "has_data s" "status_column s \<in> set (columns (load s Self_df))"
    and "lead_idx \<in> set (index (load s Self_df))"
    and "status_column s \<noteq> ''status''" "status_column s \<noteq> ''last_contact''"
  shows "field_is (load (snd (update_lead_status lib now lead_idx new_status s)) Self_df)
           lead_idx (status_column s) (Str new_status)"
    and "(i, r) \<in> set (rows (load (snd (update_lead_status lib now lead_idx new_status s)) Self_df))
         \<Longrightarrow> \<exists>r0. (i, r0) \<in> set (rows (load s Self_df)) \<and> r ''status'' = r0 ''status''"
proof -
  let ?d1 = "loc_set lead_idx (status_column s) (Str new_status) (load s Self_df)"
  let ?d2 = "loc_set lead_idx ''last_contact'' (Str (strftime_day lib now)) ?d1"
  have fr: "load (snd (update_lead_status lib now lead_idx new_status s)) Self_df = ?d2"
    using update_lead_status_frame[OF assms(1-3), of lib now new_status] by simp
  have "field_is ?d1 lead_idx (status_column s) (Str new_status)" by (rule field_is_loc_set)
  then have "field_is ?d2 lead_idx (status_column s) (Str new_status)"
    using assms(5) by (rule field_is_loc_set_other[OF _ not_sym])
  then show "field_is (load (snd (update_lead_status lib now lead_idx new_status s)) Self_df)
           lead_idx (status_column s) (Str new_status)" unfolding fr .
  assume "(i, r) \<in> set (rows (load (snd (update_lead_status lib now lead_idx new_status s)) Self_df))"
  then have a: "(i, r) \<in> set (rows ?d2)" unfolding fr .
  have i1: "lead_idx \<in> set (index ?d1)" by (simp add: loc_set_index)
  from loc_set_rows_other[OF a _ i1, of "''status''"]
  obtain r1 where r1: "(i, r1) \<in> set (rows ?d1)" "r ''status'' = r1 ''status''" by auto
  from loc_set_rows_other[OF r1(1) _ assms(3), of "''status''"] assms(4)
  obtain r0 where "(i, r0) \<in> set (rows (load s Self_df))" "r1 ''status'' = r0 ''status''" by auto
  then show "\<exists>r0. (i, r0) \<in> set (rows (load s Self_df)) \<and> r ''status'' = r0 ''status''"
    using r1(2) by auto
qed




end
